theory Spec2Isabelle
  imports Complex_Main "HOL-Library.Multiset"
begin

section \<open>Values and records of the drag-and-drop reordering engine\<close>

text \<open>
  Identifiers travel through the code as JavaScript values that are a string,
  \<^verbatim>\<open>null\<close> or \<^verbatim>\<open>undefined\<close> (a missing \<^verbatim>\<open>dataset\<close> attribute, a missing
  object field). Strict equality \<^verbatim>\<open>===\<close> on such values is equality of the datatype.
\<close>

datatype jsid = Undefined | Null | Str string

text \<open>
  \<^verbatim>\<open>x || null\<close>: every falsy value (\<^verbatim>\<open>undefined\<close>, \<^verbatim>\<open>null\<close>, the empty string)
  becomes \<^verbatim>\<open>null\<close>.
\<close>

fun or_null :: "jsid \<Rightarrow> jsid" where
  "or_null Undefined = Null"
| "or_null Null = Null"
| "or_null (Str s) = (if s = [] then Null else Str s)"

text \<open>
  A task of \<^verbatim>\<open>_currentTasks\<close>: \<^verbatim>\<open>t.id\<close> (field \<open>task_id\<close>, since \<open>id\<close> is taken),
  \<^verbatim>\<open>t.parentTaskId\<close> and \<^verbatim>\<open>t.orderIndex\<close> (absent is \<open>None\<close>).
\<close>

record task =
  task_id :: string
  parentTaskId :: jsid
  orderIndex :: "int option"

text \<open>\<^verbatim>\<open>a.orderIndex || 0\<close>\<close>

fun or_zero :: "int option \<Rightarrow> int" where
  "or_zero None = 0"
| "or_zero (Some n) = n"

section \<open>Task helpers (task-helpers.js)\<close>

text \<open>
  \<^verbatim>\<open>descendants.push(child.id); descendants.push(...getTaskDescendants(tasks, child.id))\<close>
  for each child in turn: the results of the recursive calls are concatenated, and a call
  that does not return keeps the whole loop from returning.
\<close>

fun concat_results :: "'a list option list \<Rightarrow> 'a list option" where
  "concat_results [] = Some []"
| "concat_results (r # rs) =
     (case r of None \<Rightarrow> None
      | Some xs \<Rightarrow> (case concat_results rs of None \<Rightarrow> None | Some ys \<Rightarrow> Some (xs @ ys)))"

text \<open>
  \<^verbatim>\<open>getTaskDescendants(tasks, taskId)\<close> recurses without any visited set, so on cyclic
  data it does not return. The first argument bounds the recursion depth; \<open>None\<close> is
  "no result within that depth".
\<close>

fun getTaskDescendants :: "nat \<Rightarrow> task list \<Rightarrow> jsid \<Rightarrow> string list option" where
  "getTaskDescendants 0 tasks taskId = None"
| "getTaskDescendants (Suc fuel) tasks taskId =
     concat_results
       (map (\<lambda>child. map_option (\<lambda>ds. task_id child # ds)
                        (getTaskDescendants fuel tasks (Str (task_id child))))
            (filter (\<lambda>t. parentTaskId t = taskId) tasks))"

text \<open>
  \<^verbatim>\<open>isTaskDescendantOf(tasks, potentialDescendantId, potentialAncestorId)\<close>: the
  identity test comes first and needs no recursion.
\<close>

definition isTaskDescendantOf :: "nat \<Rightarrow> task list \<Rightarrow> jsid \<Rightarrow> jsid \<Rightarrow> bool option" where
  "isTaskDescendantOf fuel tasks potentialDescendantId potentialAncestorId =
     (if potentialDescendantId = potentialAncestorId then Some True
      else map_option (\<lambda>descendants. potentialDescendantId \<in> set (map Str descendants))
             (getTaskDescendants fuel tasks potentialAncestorId))"

text \<open>
  The \<^verbatim>\<open>parentTaskId\<close> relation of a task collection, as pairs (child, parent).
\<close>

definition parent_rel :: "task list \<Rightarrow> (jsid \<times> jsid) set" where
  "parent_rel tasks = (\<lambda>c. (Str (task_id c), parentTaskId c)) ` set tasks"

section \<open>DOM elements and array helpers\<close>

text \<open>
  A DOM element as the engine sees it: its identity (\<^verbatim>\<open>targetEl === _draggedEl\<close> compares
  nodes, not contents), its \<^verbatim>\<open>dataset\<close> and the rectangle that
  \<^verbatim>\<open>getBoundingClientRect()\<close> reports. Coordinates are finite JavaScript numbers, held
  as the real numbers they denote.
\<close>

record domrect =
  rect_top :: real
  rect_bottom :: real
  rect_left :: real
  rect_right :: real
  rect_height :: real

record element =
  node :: nat
  dataset :: "string \<rightharpoonup> string"
  rect :: domrect

text \<open>\<^verbatim>\<open>el.dataset.name\<close>: \<^verbatim>\<open>undefined\<close> when the attribute is absent.\<close>

definition attr :: "element \<Rightarrow> string \<Rightarrow> jsid" where
  "attr el name = (case dataset el name of None \<Rightarrow> Undefined | Some s \<Rightarrow> Str s)"

text \<open>\<^verbatim>\<open>xs.findIndex(P)\<close>; JavaScript's \<^verbatim>\<open>-1\<close> is \<open>None\<close>.\<close>

fun findIndex :: "('a \<Rightarrow> bool) \<Rightarrow> 'a list \<Rightarrow> nat option" where
  "findIndex P [] = None"
| "findIndex P (x # xs) = (if P x then Some 0 else map_option Suc (findIndex P xs))"

text \<open>\<^verbatim>\<open>xs.splice(i, 0, x)\<close>: a start beyond the end inserts at the end.\<close>

definition splice_insert :: "nat \<Rightarrow> 'a \<Rightarrow> 'a list \<Rightarrow> 'a list" where
  "splice_insert i x xs = take i xs @ x # drop i xs"

text \<open>
  \<^verbatim>\<open>xs.sort((a, b) => (a.orderIndex || 0) - (b.orderIndex || 0))\<close>: ascending by the key,
  and stable (elements with equal keys keep their order), as \<^verbatim>\<open>Array.prototype.sort\<close> is
  required to be. \<^const>\<open>sort_key\<close> is a stable insertion sort.
\<close>

definition sortByOrderIndex :: "('a \<Rightarrow> int option) \<Rightarrow> 'a list \<Rightarrow> 'a list" where
  "sortByOrderIndex oi xs = sort_key (\<lambda>x. or_zero (oi x)) xs"

text \<open>
  The insert position both planners compute: after the previous element when its id is
  found among the siblings, at the end when there is neither a previous nor a next element,
  and position 0 in every other case (\<^verbatim>\<open>let insertIndex = 0\<close> is never overwritten then).
\<close>

definition insertIndex :: "('a \<Rightarrow> string) \<Rightarrow> 'a list \<Rightarrow> jsid option \<Rightarrow> bool \<Rightarrow> nat" where
  "insertIndex ident siblings prevId hasNext =
     (case prevId of
        Some pid \<Rightarrow>
          (case findIndex (\<lambda>t. Str (ident t) = pid) siblings of
             Some prevIndex \<Rightarrow> prevIndex + 1
           | None \<Rightarrow> 0)
      | None \<Rightarrow> (if \<not> hasNext then length siblings else 0))"

section \<open>Reorder planner of the task list (task-list-sortable.js)\<close>

text \<open>One entry of the array \<^verbatim>\<open>buildUpdatesArray\<close> returns: \<^verbatim>\<open>{id, orderIndex, parentTaskId}\<close>.\<close>

record task_update =
  upd_id :: string
  upd_orderIndex :: int
  upd_parentTaskId :: jsid

text \<open>\<^verbatim>\<open>siblings.map((task, index) => ({id: task.id, orderIndex: index * 1000, parentTaskId: targetParentId}))\<close>\<close>

definition renumber :: "jsid \<Rightarrow> task list \<Rightarrow> task_update list" where
  "renumber targetParentId siblings =
     map (\<lambda>(index, t). \<lparr>upd_id = task_id t, upd_orderIndex = int index * 1000,
                         upd_parentTaskId = targetParentId\<rparr>)
         (enumerate 0 siblings)"

text \<open>
  \<^verbatim>\<open>buildUpdatesArray(taskId, targetParentId, prevEl, nextEl)\<close> over \<^verbatim>\<open>_currentTasks\<close>;
  \<^verbatim>\<open>return null\<close> is \<open>None\<close>. The steps are in the order of the source: filter by
  container, sort, remove the moved task, look the moved task up, insert, renumber.
\<close>

definition buildUpdatesArray ::
  "task list \<Rightarrow> jsid \<Rightarrow> jsid \<Rightarrow> element option \<Rightarrow> element option \<Rightarrow> task_update list option" where
  "buildUpdatesArray currentTasks taskId targetParentId prevEl nextEl =
     (let siblings = filter (\<lambda>t. or_null (parentTaskId t) = targetParentId) currentTasks;
          siblings = sortByOrderIndex orderIndex siblings;
          siblings = filter (\<lambda>t. Str (task_id t) \<noteq> taskId) siblings
      in case find (\<lambda>t. Str (task_id t) = taskId) currentTasks of
           None \<Rightarrow> None
         | Some movedTask \<Rightarrow>
             Some (renumber targetParentId
                    (splice_insert
                       (insertIndex task_id siblings
                          (map_option (\<lambda>el. attr el ''taskId'') prevEl) (nextEl \<noteq> None))
                       movedTask siblings)))"

section \<open>Reorder planner of the side list (side-list-sortable.js)\<close>

text \<open>
  An item of the side list (folder, objective, note, bookmark or task list): \<^verbatim>\<open>id\<close>,
  \<^verbatim>\<open>parentId\<close> (read for folders), \<^verbatim>\<open>folderId\<close> (read for every other kind) and
  \<^verbatim>\<open>orderIndex\<close>.
\<close>

record item =
  item_id :: string
  parentId :: jsid
  folderId :: jsid
  item_orderIndex :: "int option"

datatype kind = Folder | Objective | Note | Bookmark | TaskList

text \<open>The \<^verbatim>\<open>data-type\<close> strings the code switches on.\<close>

definition kind_of :: "jsid \<Rightarrow> kind option" where
  "kind_of ty =
     (if ty = Str ''folder'' then Some Folder
      else if ty = Str ''objective'' then Some Objective
      else if ty = Str ''note'' then Some Note
      else if ty = Str ''bookmark'' then Some Bookmark
      else if ty = Str ''task-list'' then Some TaskList
      else None)"

text \<open>
  \<^verbatim>\<open>AppState.getData()\<close> together with \<^verbatim>\<open>BookmarkStorage.loadAllBookmarks()\<close>; a missing
  \<^verbatim>\<open>data.notes\<close> (field \<open>notes_d\<close>) or \<^verbatim>\<open>data.taskLists\<close> (\<^verbatim>\<open>|| []\<close>) is the empty
  list.
\<close>

record store =
  folders :: "item list"
  objectives :: "item list"
  notes_d :: "item list"
  bookmarks :: "item list"
  taskLists :: "item list"

text \<open>The container key the code reads for an item of a given kind.\<close>

definition containerKey :: "kind \<Rightarrow> item \<Rightarrow> jsid" where
  "containerKey k i = (if k = Folder then parentId i else folderId i)"

definition collection :: "store \<Rightarrow> kind \<Rightarrow> item list" where
  "collection d k =
     (case k of Folder \<Rightarrow> folders d | Objective \<Rightarrow> objectives d | Note \<Rightarrow> notes_d d
      | Bookmark \<Rightarrow> bookmarks d | TaskList \<Rightarrow> taskLists d)"

text \<open>\<^verbatim>\<open>getItemIdFromElement(el)\<close> for an element that is present.\<close>

definition getItemIdFromElement :: "element \<Rightarrow> jsid" where
  "getItemIdFromElement el =
     (case kind_of (attr el ''type'') of
        Some Objective \<Rightarrow> attr el ''objectiveId''
      | Some Folder \<Rightarrow> attr el ''folderId''
      | Some Bookmark \<Rightarrow> attr el ''bookmarkId''
      | Some Note \<Rightarrow> attr el ''noteId''
      | Some TaskList \<Rightarrow> attr el ''taskListId''
      | None \<Rightarrow> Null)"

text \<open>
  One entry of the side list's update array:
  \<^verbatim>\<open>{id, _type, orderIndex, parentId, folderId}\<close>; \<^verbatim>\<open>parentId\<close> is set for folders and
  \<^verbatim>\<open>folderId\<close> for every other kind, the other one being \<^verbatim>\<open>undefined\<close>.
\<close>

record item_update =
  u_id :: string
  u_type :: kind
  u_orderIndex :: int
  u_parentId :: jsid
  u_folderId :: jsid

text \<open>\<^verbatim>\<open>item.id\<close> and \<^verbatim>\<open>item.orderIndex\<close> of an item tagged with its \<^verbatim>\<open>_type\<close>.\<close>

definition tagged_id :: "kind \<times> item \<Rightarrow> string" where
  "tagged_id x = item_id (snd x)"

definition tagged_orderIndex :: "kind \<times> item \<Rightarrow> int option" where
  "tagged_orderIndex x = item_orderIndex (snd x)"

definition renumber_items :: "jsid \<Rightarrow> (kind \<times> item) list \<Rightarrow> item_update list" where
  "renumber_items targetParentId allItems =
     map (\<lambda>(index, x).
            \<lparr>u_id = tagged_id x, u_type = fst x, u_orderIndex = int index * 1000,
             u_parentId = (if fst x = Folder then targetParentId else Undefined),
             u_folderId = (if fst x \<noteq> Folder then targetParentId else Undefined)\<rparr>)
         (enumerate 0 allItems)"

text \<open>
  The members of the target folder, of all kinds, in the order the source pushes them
  (folders, objectives, notes, bookmarks, task lists), each tagged with its \<^verbatim>\<open>_type\<close>.
\<close>

definition itemsIn :: "store \<Rightarrow> jsid \<Rightarrow> (kind \<times> item) list" where
  "itemsIn d targetParentId =
     map (Pair Folder) (filter (\<lambda>f. or_null (parentId f) = targetParentId) (folders d)) @
     map (Pair Objective) (filter (\<lambda>ob. or_null (folderId ob) = targetParentId) (objectives d)) @
     map (Pair Note) (filter (\<lambda>n. or_null (folderId n) = targetParentId) (notes_d d)) @
     map (Pair Bookmark) (filter (\<lambda>b. or_null (folderId b) = targetParentId) (bookmarks d)) @
     map (Pair TaskList) (filter (\<lambda>tl. or_null (folderId tl) = targetParentId) (taskLists d))"

text \<open>
  \<^verbatim>\<open>buildUpdatesArray(type, id, targetParentId, prevEl, nextEl)\<close> of the side list. The
  dropped item is looked up in the collection of its own \<^verbatim>\<open>type\<close>; an unknown type finds
  nothing.
\<close>

definition buildUpdatesArray_side ::
  "store \<Rightarrow> jsid \<Rightarrow> jsid \<Rightarrow> jsid \<Rightarrow> element option \<Rightarrow> element option \<Rightarrow> item_update list option" where
  "buildUpdatesArray_side d ty ident targetParentId prevEl nextEl =
     (let allItems = itemsIn d targetParentId;
          allItems = sortByOrderIndex tagged_orderIndex allItems;
          allItems = filter (\<lambda>x. Str (tagged_id x) \<noteq> ident) allItems
      in case kind_of ty of
           None \<Rightarrow> None
         | Some k \<Rightarrow>
            (case find (\<lambda>i. Str (item_id i) = ident) (collection d k) of
               None \<Rightarrow> None
             | Some droppedItem \<Rightarrow>
                 Some (renumber_items targetParentId
                        (splice_insert
                           (insertIndex tagged_id allItems
                              (map_option getItemIdFromElement prevEl) (nextEl \<noteq> None))
                           (k, droppedItem) allItems))))"

section \<open>JavaScript numbers\<close>

text \<open>
  Coordinates and the drop-zone threshold are JavaScript numbers, that is IEEE 754 binary64
  values. A finite one is a real number, and the fields of a rectangle, the cursor position
  and the threshold hold such reals. The result of an arithmetic operation is a finite
  number, an infinity or \<^verbatim>\<open>NaN\<close>. The sign of a zero is left out: subtraction,
  multiplication and the comparisons used here give the same answers for both zeros.
\<close>

datatype jsnum = Fin real | PosInf | NegInf | NaN

text \<open>
  The spacing of the binary64 numbers around \<open>x\<close>: \<open>2 ^ (e - 52)\<close> when
  \<open>2 ^ e \<le> \<bar>x\<bar> < 2 ^ (e + 1)\<close>, and \<open>2 ^ -1074\<close> in the subnormal range. The exponent is
  found by binary search from the smallest spacing upwards.
\<close>

definition ulp :: "real \<Rightarrow> real" where
  "ulp x = foldl (\<lambda>u k. if u * 2 ^ (k + 52) \<le> \<bar>x\<bar> then u * 2 ^ k else u) (1 / 2 ^ 1074)
             [1024, 512, 256, 128, 64, 32, 16, 8, 4, 2, 1::nat]"

text \<open>Rounding to the nearest integer, a tie going to the even one.\<close>

definition rne :: "real \<Rightarrow> int" where
  "rne y = (let f = \<lfloor>y\<rfloor>; d = y - of_int f
            in if d < 1 / 2 then f else if 1 / 2 < d then f + 1 else if even f then f else f + 1)"

text \<open>
  The binary64 number an exact result \<open>x\<close> is rounded to (round to nearest, ties to even):
  the nearest multiple of the spacing, or an infinity when that is \<open>2 ^ 1024\<close> or beyond.
\<close>

definition fl :: "real \<Rightarrow> jsnum" where
  "fl x = (let u = ulp x; r = of_int (rne (x / u)) * u
           in if 2 ^ 1024 \<le> r then PosInf else if r \<le> - (2 ^ 1024) then NegInf else Fin r)"

text \<open>\<^verbatim>\<open>a - b\<close> on JavaScript numbers.\<close>

fun fsub :: "jsnum \<Rightarrow> jsnum \<Rightarrow> jsnum" where
  "fsub (Fin a) (Fin b) = fl (a - b)"
| "fsub (Fin a) PosInf = NegInf"
| "fsub (Fin a) NegInf = PosInf"
| "fsub PosInf (Fin b) = PosInf"
| "fsub PosInf NegInf = PosInf"
| "fsub NegInf (Fin b) = NegInf"
| "fsub NegInf PosInf = NegInf"
| "fsub a b = NaN"

text \<open>\<^verbatim>\<open>a * b\<close> on JavaScript numbers.\<close>

fun fmul :: "jsnum \<Rightarrow> jsnum \<Rightarrow> jsnum" where
  "fmul (Fin a) (Fin b) = fl (a * b)"
| "fmul NaN b = NaN"
| "fmul a NaN = NaN"
| "fmul (Fin a) PosInf = (if a = 0 then NaN else if 0 < a then PosInf else NegInf)"
| "fmul (Fin a) NegInf = (if a = 0 then NaN else if 0 < a then NegInf else PosInf)"
| "fmul PosInf (Fin b) = (if b = 0 then NaN else if 0 < b then PosInf else NegInf)"
| "fmul NegInf (Fin b) = (if b = 0 then NaN else if 0 < b then NegInf else PosInf)"
| "fmul PosInf PosInf = PosInf"
| "fmul NegInf NegInf = PosInf"
| "fmul PosInf NegInf = NegInf"
| "fmul NegInf PosInf = NegInf"

text \<open>\<^verbatim>\<open>a < b\<close> on JavaScript numbers (false when either side is \<^verbatim>\<open>NaN\<close>); \<^verbatim>\<open>a > b\<close> is \<^verbatim>\<open>b < a\<close>.\<close>

fun jlt :: "jsnum \<Rightarrow> jsnum \<Rightarrow> bool" where
  "jlt (Fin a) (Fin b) = (a < b)"
| "jlt (Fin a) PosInf = True"
| "jlt NegInf (Fin b) = True"
| "jlt NegInf PosInf = True"
| "jlt a b = False"

definition jgt :: "jsnum \<Rightarrow> jsnum \<Rightarrow> bool" where
  "jgt a b = jlt b a"

section \<open>The generic sortable engine (sortable.js)\<close>

text \<open>
  What \<^verbatim>\<open>getItemData(el)\<close> extracts from an element: \<^verbatim>\<open>id\<close>, \<^verbatim>\<open>type\<close> and the parent
  key (\<^verbatim>\<open>parentTaskId\<close> for tasks, \<^verbatim>\<open>folderId\<close> in the side list). The \<^verbatim>\<open>depth\<close> field
  is left out: none of the functions modelled here reads it.
\<close>

record itemdata =
  data_id :: jsid
  data_type :: jsid
  data_parent :: jsid

text \<open>
  The options of \<^verbatim>\<open>makeSortable\<close> that decide a drop: \<^verbatim>\<open>dropZoneThreshold\<close>,
  \<^verbatim>\<open>isDropTarget\<close>, \<^verbatim>\<open>canDrop\<close> and \<^verbatim>\<open>getItemData\<close>; an option that is not given is
  \<open>None\<close>. A \<^verbatim>\<open>canDrop\<close> callback may fail to return (\<open>None\<close>), since the task list's one
  searches descendants.
\<close>

record options =
  opt_dropZoneThreshold :: "real option"
  opt_isDropTarget :: "(element \<Rightarrow> bool) option"
  opt_canDrop :: "(element \<Rightarrow> element \<Rightarrow> itemdata \<Rightarrow> bool option) option"
  opt_getItemData :: "(element \<Rightarrow> itemdata) option"

record config =
  dropZoneThreshold :: real
  isDropTarget :: "element \<Rightarrow> bool"
  canDrop :: "element \<Rightarrow> element \<Rightarrow> itemdata \<Rightarrow> bool option"
  getItemData :: "element \<Rightarrow> itemdata"

text \<open>
  The defaults of \<^verbatim>\<open>makeSortable\<close>: \<^verbatim>\<open>options.dropZoneThreshold ?? 0.25\<close>,
  \<^verbatim>\<open>options.isDropTarget || (() => false)\<close>, \<^verbatim>\<open>options.canDrop || (() => true)\<close> and
  \<^verbatim>\<open>options.getItemData || ((el) => ({id: el.dataset.id, type: el.dataset.type}))\<close>.
\<close>

definition makeConfig :: "options \<Rightarrow> config" where
  "makeConfig opts =
     \<lparr>dropZoneThreshold = (case opt_dropZoneThreshold opts of None \<Rightarrow> 0.25 | Some v \<Rightarrow> v),
      isDropTarget = (case opt_isDropTarget opts of None \<Rightarrow> (\<lambda>el. False) | Some f \<Rightarrow> f),
      canDrop = (case opt_canDrop opts of None \<Rightarrow> (\<lambda>d t dd. Some True) | Some f \<Rightarrow> f),
      getItemData = (case opt_getItemData opts of
                       None \<Rightarrow> (\<lambda>el. \<lparr>data_id = attr el ''id'', data_type = attr el ''type'',
                                        data_parent = Undefined\<rparr>)
                     | Some f \<Rightarrow> f)\<rparr>"

text \<open>
  The instance state of one sortable: \<^verbatim>\<open>_isActive\<close>, \<^verbatim>\<open>_hoverTargetEl\<close>, and
  \<^verbatim>\<open>_draggedEl\<close> together with \<^verbatim>\<open>_draggedData\<close> (the code sets and clears the two
  together).
\<close>

record dragstate =
  isActive :: bool
  hoverTargetEl :: "element option"
  dragged :: "(element \<times> itemdata) option"

definition handleDragStart :: "config \<Rightarrow> element \<Rightarrow> dragstate \<Rightarrow> dragstate" where
  "handleDragStart cfg el st =
     \<lparr>isActive = True, hoverTargetEl = None, dragged = Some (el, getItemData cfg el)\<rparr>"

text \<open>
  \<^verbatim>\<open>cursorX < rect.left || cursorX > rect.right || cursorY < rect.top || cursorY > rect.bottom\<close>
\<close>

definition outsideRect :: "domrect \<Rightarrow> real \<Rightarrow> real \<Rightarrow> bool" where
  "outsideRect r cursorX cursorY =
     (cursorX < rect_left r \<or> cursorX > rect_right r \<or> cursorY < rect_top r \<or> cursorY > rect_bottom r)"

text \<open>
  \<^verbatim>\<open>relativeY = cursorY - rect.top; threshold = rect.height * config.dropZoneThreshold;\<close>
  \<^verbatim>\<open>inCenterZone = relativeY > threshold && relativeY < (rect.height - threshold)\<close>,
  each operation in binary64 arithmetic.
\<close>

definition inCenterZone :: "config \<Rightarrow> domrect \<Rightarrow> real \<Rightarrow> bool" where
  "inCenterZone cfg r cursorY =
     (let relativeY = fsub (Fin cursorY) (Fin (rect_top r));
          threshold = fmul (Fin (rect_height r)) (Fin (dropZoneThreshold cfg))
      in jgt relativeY threshold \<and> jlt relativeY (fsub (Fin (rect_height r)) threshold))"

text \<open>
  One pass of the body of the \<^verbatim>\<open>.each\<close> loop of \<^verbatim>\<open>handleSort\<close> for the candidate
  \<open>targetEl\<close>: \<open>Some True\<close> when the candidate becomes the hover target (the loop breaks),
  \<open>Some False\<close> when the loop continues, \<open>None\<close> when \<^verbatim>\<open>canDrop\<close> does not return.
  \<^verbatim>\<open>canDrop\<close> is called before the zone is looked at, as in the source.
\<close>

definition dropsInto ::
  "config \<Rightarrow> element \<Rightarrow> itemdata \<Rightarrow> real \<Rightarrow> real \<Rightarrow> element \<Rightarrow> bool option" where
  "dropsInto cfg draggedEl draggedData cursorX cursorY targetEl =
     (if \<not> isDropTarget cfg targetEl then Some False
      else if node targetEl = node draggedEl then Some False
      else if outsideRect (rect targetEl) cursorX cursorY then Some False
      else (case canDrop cfg draggedEl targetEl draggedData of
              None \<Rightarrow> None
            | Some ok \<Rightarrow> Some (inCenterZone cfg (rect targetEl) cursorY \<and> ok)))"

text \<open>The loop over \<^verbatim>\<open>$container.find(config.itemSelector)\<close>: the first candidate taken.\<close>

fun scanTargets ::
  "config \<Rightarrow> element \<Rightarrow> itemdata \<Rightarrow> real \<Rightarrow> real \<Rightarrow> element list \<Rightarrow> element option option" where
  "scanTargets cfg draggedEl draggedData cursorX cursorY [] = Some None"
| "scanTargets cfg draggedEl draggedData cursorX cursorY (targetEl # rest) =
     (case dropsInto cfg draggedEl draggedData cursorX cursorY targetEl of
        None \<Rightarrow> None
      | Some True \<Rightarrow> Some (Some targetEl)
      | Some False \<Rightarrow> scanTargets cfg draggedEl draggedData cursorX cursorY rest)"

text \<open>
  \<^verbatim>\<open>handleSort(e, ui)\<close> for the candidates in view and the cursor at
  \<^verbatim>\<open>(e.pageX, e.pageY)\<close>: nothing happens unless a drag is active; otherwise the hover
  target becomes the candidate taken, or \<^verbatim>\<open>null\<close> when none is.
\<close>

definition handleSort ::
  "config \<Rightarrow> element list \<Rightarrow> real \<Rightarrow> real \<Rightarrow> dragstate \<Rightarrow> dragstate option" where
  "handleSort cfg candidates cursorX cursorY st =
     (if \<not> isActive st then Some st
      else case dragged st of
             None \<Rightarrow> Some st
           | Some (draggedEl, draggedData) \<Rightarrow>
               map_option (\<lambda>found. st\<lparr>hoverTargetEl := found\<rparr>)
                 (scanTargets cfg draggedEl draggedData cursorX cursorY candidates))"

text \<open>
  The single event \<^verbatim>\<open>handleDragStop\<close> hands to the consumer: \<^verbatim>\<open>onDropInto\<close> with the
  item id, the target id and the target element, or \<^verbatim>\<open>onReorder\<close> with the item id and the
  DOM neighbours of the dropped element; nothing when no drag was active.
\<close>

datatype drop_event =
  NoEvent
| DropInto jsid jsid element
| Reorder jsid "element option" "element option"

definition handleDragStop ::
  "config \<Rightarrow> element \<Rightarrow> element option \<Rightarrow> element option \<Rightarrow> dragstate \<Rightarrow> dragstate \<times> drop_event" where
  "handleDragStop cfg el prevEl nextEl st =
     (let d = getItemData cfg el;
          dropTargetEl = hoverTargetEl st;
          wasActive = isActive st;
          st' = \<lparr>isActive = False, hoverTargetEl = None, dragged = None\<rparr>
      in if \<not> wasActive then (st', NoEvent)
         else case dropTargetEl of
                Some t \<Rightarrow> (st', DropInto (data_id d) (data_id (getItemData cfg t)) t)
              | None \<Rightarrow> (st', Reorder (data_id d) prevEl nextEl))"

section \<open>The drop rules of the two lists\<close>

text \<open>The task list: \<^verbatim>\<open>getItemData\<close>, \<^verbatim>\<open>isDropTarget\<close> and \<^verbatim>\<open>canDrop\<close> of task-list-sortable.js.\<close>

definition getItemData_task :: "element \<Rightarrow> itemdata" where
  "getItemData_task el =
     \<lparr>data_id = attr el ''taskId'', data_type = Str ''task'',
      data_parent = or_null (attr el ''parentTaskId'')\<rparr>"

definition isDropTarget_task :: "element \<Rightarrow> bool" where
  "isDropTarget_task el = (attr el ''type'' = Str ''task'')"




definition canDrop_side ::
  "(jsid \<Rightarrow> jsid \<Rightarrow> bool) \<Rightarrow> element \<Rightarrow> element \<Rightarrow> itemdata \<Rightarrow> bool option" where
  "canDrop_side isDescendantOf draggedEl targetEl draggedData =
     (let targetId = attr targetEl ''folderId''
      in if data_type draggedData = Str ''folder'' \<and> data_id draggedData = targetId then Some False
         else if data_type draggedData = Str ''folder'' \<and>
                 isDescendantOf targetId (data_id draggedData) then Some False
         else Some True)"




section \<open>Applying and persisting a plan\<close>

text \<open>
  \<^verbatim>\<open>const x = xs.find(P); if (x) { ...mutate x... }\<close>: the first element that satisfies
  \<open>P\<close> is changed in place, every other element is left alone.
\<close>

fun update_first :: "('a \<Rightarrow> bool) \<Rightarrow> ('a \<Rightarrow> 'a) \<Rightarrow> 'a list \<Rightarrow> 'a list" where
  "update_first P f [] = []"
| "update_first P f (x # xs) = (if P x then f x # xs else x # update_first P f xs)"

text \<open>
  \<^verbatim>\<open>applyUpdatesLocally(updates)\<close> of the task list: for each update in turn, the task with
  that id gets the update's \<^verbatim>\<open>orderIndex\<close> and \<^verbatim>\<open>parentTaskId\<close>.
\<close>

definition applyUpdate :: "task_update \<Rightarrow> task list \<Rightarrow> task list" where
  "applyUpdate u currentTasks =
     update_first (\<lambda>t. task_id t = upd_id u)
       (\<lambda>t. t\<lparr>orderIndex := Some (upd_orderIndex u), parentTaskId := upd_parentTaskId u\<rparr>)
       currentTasks"

definition applyUpdatesLocally :: "task_update list \<Rightarrow> task list \<Rightarrow> task list" where
  "applyUpdatesLocally updates currentTasks = foldl (\<lambda>ts u. applyUpdate u ts) currentTasks updates"

text \<open>
  \<^bold>\<open>Modelled from the spec:\<close> \<^verbatim>\<open>BookmarkStorage.updateBookmarkOrder(id, orderIndex, folderId)\<close>
  (the bookmark storage is another module): the per-node update operation of the
  persistence interface, which writes the new order index and container key of the bookmark
  with that id.
\<close>

definition updateBookmarkOrder :: "string \<Rightarrow> int \<Rightarrow> jsid \<Rightarrow> item list \<Rightarrow> item list" where
  "updateBookmarkOrder ident n folder bs =
     update_first (\<lambda>b. item_id b = ident) (\<lambda>b. b\<lparr>item_orderIndex := Some n, folderId := folder\<rparr>) bs"

text \<open>
  \<^verbatim>\<open>applyUpdatesLocally(type, updates)\<close> of the side list. Every update carries its
  \<^verbatim>\<open>_type\<close>, so \<^verbatim>\<open>update._type || type\<close> is the update's own kind. A folder gets
  \<^verbatim>\<open>orderIndex\<close> and \<^verbatim>\<open>parentId\<close>; an objective, note or task list gets \<^verbatim>\<open>orderIndex\<close>
  and \<^verbatim>\<open>folderId\<close>; a bookmark is written through the bookmark storage.
\<close>

definition applyItemUpdate :: "item_update \<Rightarrow> store \<Rightarrow> store" where
  "applyItemUpdate u d =
     (case u_type u of
        Folder \<Rightarrow>
          d\<lparr>folders := update_first (\<lambda>f. item_id f = u_id u)
               (\<lambda>f. f\<lparr>item_orderIndex := Some (u_orderIndex u), parentId := u_parentId u\<rparr>)
               (folders d)\<rparr>
      | Objective \<Rightarrow>
          d\<lparr>objectives := update_first (\<lambda>ob. item_id ob = u_id u)
               (\<lambda>ob. ob\<lparr>item_orderIndex := Some (u_orderIndex u), folderId := u_folderId u\<rparr>)
               (objectives d)\<rparr>
      | Note \<Rightarrow>
          d\<lparr>notes_d := update_first (\<lambda>n. item_id n = u_id u)
               (\<lambda>n. n\<lparr>item_orderIndex := Some (u_orderIndex u), folderId := u_folderId u\<rparr>)
               (notes_d d)\<rparr>
      | Bookmark \<Rightarrow>
          d\<lparr>bookmarks := updateBookmarkOrder (u_id u) (u_orderIndex u) (u_folderId u) (bookmarks d)\<rparr>
      | TaskList \<Rightarrow>
          d\<lparr>taskLists := update_first (\<lambda>tl. item_id tl = u_id u)
               (\<lambda>tl. tl\<lparr>item_orderIndex := Some (u_orderIndex u), folderId := u_folderId u\<rparr>)
               (taskLists d)\<rparr>)"

definition applyUpdatesLocally_side :: "item_update list \<Rightarrow> store \<Rightarrow> store" where
  "applyUpdatesLocally_side updates d = foldl (\<lambda>d u. applyItemUpdate u d) d updates"

text \<open>
  What the rest of the application sees of the task list: \<^verbatim>\<open>_currentTasks\<close>, the rows of
  the current task list in the task storage, whether a query of the storage fails, whether
  \<^verbatim>\<open>AppState.getTaskLists()\<close> still holds the current task list, the number of re-renders,
  the error toasts shown, the messages of \<^verbatim>\<open>console.error\<close>, and the persistence calls
  issued so far. Scroll restoration and \<^verbatim>\<open>console.log\<close> are not modelled.
\<close>

record tstate =
  currentTasks :: "task list"
  storedTasks :: "task list"
  loadFails :: bool
  taskListKnown :: bool
  renderCount :: nat
  toasts :: "string list"
  consoleErrors :: "string list"
  persistCalls :: "task_update list"

text \<open>
  The same for the side list: the data of \<^verbatim>\<open>AppState.getData()\<close> with the bookmarks, and
  the counters. The render callback of the side list is installed by another module; it is
  a counter here.
\<close>

record sstate =
  sdata :: store
  s_renderCount :: nat
  s_toasts :: "string list"
  s_consoleErrors :: "string list"
  s_persistCalls :: "item_update list"

text \<open>
  The task storage module. \<^verbatim>\<open>Repository\<close> (data/repository.js) is the facade through which
  the components reach it; its \<^verbatim>\<open>loadTasksForList\<close> and \<^verbatim>\<open>updateTaskOrder\<close> are taken to
  be the storage module's functions of the same names.

  \<^verbatim>\<open>loadTasksForList(taskListId)\<close>: the rows of the list ordered by \<^verbatim>\<open>order_index\<close>
  ascending (rows without one come last, rows with equal ones keep the order of the table),
  each turned into a task with \<^verbatim>\<open>parentTaskId: row.parent_task_id || null\<close> and
  \<^verbatim>\<open>orderIndex: row.order_index || 0\<close>; the empty list when the query fails.
\<close>

definition loadTasksForList :: "bool \<Rightarrow> task list \<Rightarrow> task list" where
  "loadTasksForList queryFails rows =
     (if queryFails then []
      else map (\<lambda>row. \<lparr>task_id = task_id row, parentTaskId = or_null (parentTaskId row),
                         orderIndex = Some (or_zero (orderIndex row))\<rparr>)
               (sortByOrderIndex orderIndex (filter (\<lambda>row. orderIndex row \<noteq> None) rows) @
                filter (\<lambda>row. orderIndex row = None) rows))"

text \<open>
  \<^verbatim>\<open>updateTaskOrder(taskId, orderIndex, parentTaskId)\<close> when the write succeeds: the row
  with that id gets the order index, and the parent unless \<^verbatim>\<open>parentTaskId\<close> is
  \<^verbatim>\<open>undefined\<close>.
\<close>

definition updateTaskOrder :: "task_update \<Rightarrow> task list \<Rightarrow> task list" where
  "updateTaskOrder u rows =
     map (\<lambda>row. if task_id row = upd_id u
                 then row\<lparr>orderIndex := Some (upd_orderIndex u),
                          parentTaskId := (if upd_parentTaskId u = Undefined then parentTaskId row
                                           else upd_parentTaskId u)\<rparr>
                 else row) rows"

text \<open>
  \<^verbatim>\<open>refreshView(container)\<close> of task-list-view.js, the render callback the task list view
  installs: the tasks are loaded from the storage again and, when the task list is still
  known, drawn and handed to the sortable with \<^verbatim>\<open>setCurrentTasks\<close>, replacing
  \<^verbatim>\<open>_currentTasks\<close>. The function is asynchronous. Here and below the requests to the
  storage take effect in the order in which they are issued, so that a reload sees exactly
  the accepted writes that were issued before it: the reload started by the local mutation
  precedes the writes of the plan, the one started by the error handler follows them.
\<close>

definition refreshView :: "tstate \<Rightarrow> tstate" where
  "refreshView st =
     (let loaded = loadTasksForList (loadFails st) (storedTasks st)
      in if taskListKnown st
         then st\<lparr>currentTasks := loaded, renderCount := renderCount st + 1\<rparr>
         else st)"

text \<open>
  \<^verbatim>\<open>persistUpdates(updates, Repository)\<close> of the task list: one
  \<^verbatim>\<open>Repository.updateTaskOrder\<close> call per update, all issued at once, joined by
  \<^verbatim>\<open>Promise.all\<close>, which rejects as soon as one of them does. \<open>rejects\<close> says which
  writes the storage refuses; the other writes are stored. The result is whether the joined
  promise resolved.
\<close>

definition persistUpdates :: "(task_update \<Rightarrow> bool) \<Rightarrow> task_update list \<Rightarrow> tstate \<Rightarrow> bool \<times> tstate" where
  "persistUpdates rejects updates st =
     (\<not> list_ex rejects updates,
      st\<lparr>persistCalls := persistCalls st @ updates,
         storedTasks := foldl (\<lambda>rows u. if rejects u then rows else updateTaskOrder u rows)
                          (storedTasks st) updates\<rparr>)"

text \<open>
  \<^verbatim>\<open>persistUpdates(type, updates, Repository, NoteStorage, BookmarkStorage)\<close> of the side
  list: a call is issued for a folder, objective, note or task list when the matching
  repository function exists (\<open>available\<close>); bookmarks are not persisted here.
\<close>

definition persistedKinds :: "(kind \<Rightarrow> bool) \<Rightarrow> item_update list \<Rightarrow> item_update list" where
  "persistedKinds available updates =
     filter (\<lambda>u. u_type u \<noteq> Bookmark \<and> available (u_type u)) updates"

definition persistUpdates_side ::
  "(kind \<Rightarrow> bool) \<Rightarrow> (item_update \<Rightarrow> bool) \<Rightarrow> item_update list \<Rightarrow> sstate \<Rightarrow> bool \<times> sstate" where
  "persistUpdates_side available rejects updates st =
     (\<not> list_ex rejects (persistedKinds available updates),
      st\<lparr>s_persistCalls := s_persistCalls st @ persistedKinds available updates\<rparr>)"

section \<open>The optimistic mutation coordinator\<close>

text \<open>
  \<^bold>\<open>Modelled from the spec:\<close> the snapshot the coordinator takes of the task collection, one
  entry \<^verbatim>\<open>(id, orderIndex, parentTaskId)\<close> for each node, and its restoration: every
  snapshotted node that is still in the collection gets its values from before the mutation.
\<close>

definition snapshotTasks :: "task list \<Rightarrow> (string \<times> int option \<times> jsid) list" where
  "snapshotTasks tasks = map (\<lambda>t. (task_id t, orderIndex t, parentTaskId t)) tasks"

definition restoreTasks :: "(string \<times> int option \<times> jsid) list \<Rightarrow> task list \<Rightarrow> task list" where
  "restoreTasks snap tasks =
     foldl (\<lambda>ts (i, oi, p).
              update_first (\<lambda>t. task_id t = i) (\<lambda>t. t\<lparr>orderIndex := oi, parentTaskId := p\<rparr>) ts)
           tasks snap"

text \<open>
  \<^bold>\<open>Modelled from the spec:\<close> \<^verbatim>\<open>OptimisticState.optimisticUpdate(mutateFn, persistFn, {onError})\<close>
  (state/optimistic-state.js is another module), as the task list calls it. As the
  specification describes the coordinator: snapshot the current values of the nodes, run the
  local mutation, run the persistence; on success nothing more happens, on failure every
  snapshotted node is restored to its values from before the mutation and the error handler
  is called. The call names no plan, so the snapshot covers the whole collection. The failure
  is handled here: the result is a state, never an error.
\<close>

definition optimisticUpdate ::
  "(tstate \<Rightarrow> tstate) \<Rightarrow> (tstate \<Rightarrow> bool \<times> tstate) \<Rightarrow> (tstate \<Rightarrow> tstate) \<Rightarrow> tstate \<Rightarrow> tstate" where
  "optimisticUpdate mutateFn persistFn onError st =
     (let snapshot = snapshotTasks (currentTasks st);
          st1 = mutateFn st;
          (resolved, st2) = persistFn st1
      in if resolved then st2
         else onError (st2\<lparr>currentTasks := restoreTasks snapshot (currentTasks st2)\<rparr>))"

text \<open>
  \<^bold>\<open>Modelled from the spec:\<close> the snapshot of the side list's collections, one entry
  \<^verbatim>\<open>(kind, id, orderIndex, parentId, folderId)\<close> for each item, and its restoration.
\<close>

definition snapshotItems :: "store \<Rightarrow> (kind \<times> string \<times> int option \<times> jsid \<times> jsid) list" where
  "snapshotItems d =
     concat (map (\<lambda>k. map (\<lambda>i. (k, item_id i, item_orderIndex i, parentId i, folderId i))
                          (collection d k))
                 [Folder, Objective, Note, Bookmark, TaskList])"

definition restoreItem :: "kind \<times> string \<times> int option \<times> jsid \<times> jsid \<Rightarrow> store \<Rightarrow> store" where
  "restoreItem e d =
     (case e of (k, i, oi, p, f) \<Rightarrow>
        (let restored = update_first (\<lambda>x. item_id x = i)
                          (\<lambda>x. x\<lparr>item_orderIndex := oi, parentId := p, folderId := f\<rparr>)
         in case k of
              Folder \<Rightarrow> d\<lparr>folders := restored (folders d)\<rparr>
            | Objective \<Rightarrow> d\<lparr>objectives := restored (objectives d)\<rparr>
            | Note \<Rightarrow> d\<lparr>notes_d := restored (notes_d d)\<rparr>
            | Bookmark \<Rightarrow> d\<lparr>bookmarks := restored (bookmarks d)\<rparr>
            | TaskList \<Rightarrow> d\<lparr>taskLists := restored (taskLists d)\<rparr>))"

definition restoreItems :: "(kind \<times> string \<times> int option \<times> jsid \<times> jsid) list \<Rightarrow> store \<Rightarrow> store" where
  "restoreItems snap d = foldl (\<lambda>d e. restoreItem e d) d snap"

text \<open>
  \<^bold>\<open>Modelled from the spec:\<close> the same coordinator, as the side list calls it (one function
  in the code; the model has a copy for each of the two states).
\<close>

definition optimisticUpdate_side ::
  "(sstate \<Rightarrow> sstate) \<Rightarrow> (sstate \<Rightarrow> bool \<times> sstate) \<Rightarrow> (sstate \<Rightarrow> sstate) \<Rightarrow> sstate \<Rightarrow> sstate" where
  "optimisticUpdate_side mutateFn persistFn onError st =
     (let snapshot = snapshotItems (sdata st);
          st1 = mutateFn st;
          (resolved, st2) = persistFn st1
      in if resolved then st2
         else onError (st2\<lparr>sdata := restoreItems snapshot (sdata st2)\<rparr>))"

section \<open>The entry points of a move\<close>

text \<open>
  \<^verbatim>\<open>updateTaskPosition(taskId, targetParentId, prevEl, nextEl)\<close>: without a repository, or
  when no plan can be built, only an error is logged; otherwise the plan goes through the
  coordinator, with \<^verbatim>\<open>applyUpdatesLocally\<close> and the render callback as the local mutation,
  \<^verbatim>\<open>persistUpdates\<close> as the persistence, and an error message, a toast and the render
  callback on error. The render callback is \<^verbatim>\<open>refreshView\<close>.
\<close>

definition updateTaskPosition ::
  "bool \<Rightarrow> (task_update \<Rightarrow> bool) \<Rightarrow> jsid \<Rightarrow> jsid \<Rightarrow> element option \<Rightarrow> element option \<Rightarrow> tstate \<Rightarrow> tstate" where
  "updateTaskPosition repositoryAvailable rejects taskId targetParentId prevEl nextEl st =
     (if \<not> repositoryAvailable
      then st\<lparr>consoleErrors := consoleErrors st @ [''Repository not available'']\<rparr>
      else case buildUpdatesArray (currentTasks st) taskId targetParentId prevEl nextEl of
             None \<Rightarrow> st\<lparr>consoleErrors := consoleErrors st @ [''Could not build updates'']\<rparr>
           | Some updates \<Rightarrow>
               optimisticUpdate
                 (\<lambda>s. refreshView (s\<lparr>currentTasks := applyUpdatesLocally updates (currentTasks s)\<rparr>))
                 (persistUpdates rejects updates)
                 (\<lambda>s. refreshView
                         (s\<lparr>consoleErrors := consoleErrors s @ [''Task reorder failed:''],
                            toasts := toasts s @ [''Move failed. Changes reverted.'']\<rparr>))
                 st)"

text \<open>
  \<^verbatim>\<open>updateItemPosition(type, id, targetParentId, prevEl, nextEl)\<close> of the side list: when
  no plan can be built an error is logged and the list is re-rendered; otherwise the plan
  goes through the coordinator in the same way.
\<close>

definition updateItemPosition ::
  "(kind \<Rightarrow> bool) \<Rightarrow> (item_update \<Rightarrow> bool) \<Rightarrow> jsid \<Rightarrow> jsid \<Rightarrow> jsid \<Rightarrow> element option \<Rightarrow> element option \<Rightarrow>
   sstate \<Rightarrow> sstate" where
  "updateItemPosition available rejects ty ident targetParentId prevEl nextEl st =
     (case buildUpdatesArray_side (sdata st) ty ident targetParentId prevEl nextEl of
        None \<Rightarrow> st\<lparr>s_consoleErrors := s_consoleErrors st @ [''Could not build updates for:''],
                   s_renderCount := s_renderCount st + 1\<rparr>
      | Some updates \<Rightarrow>
          optimisticUpdate_side
            (\<lambda>s. s\<lparr>sdata := applyUpdatesLocally_side updates (sdata s),
                   s_renderCount := s_renderCount s + 1\<rparr>)
            (persistUpdates_side available rejects updates)
            (\<lambda>s. s\<lparr>s_consoleErrors := s_consoleErrors s @ [''Drag-drop save failed:''],
                   s_toasts := s_toasts s @ [''Move failed. Changes reverted.''],
                   s_renderCount := s_renderCount s + 1\<rparr>)
            st)"

section \<open>Example collections\<close>

text \<open>
  The collections of the scenarios: three tasks under one parent, and a root folder with a
  root objective beside it.
\<close>

abbreviation mkTask :: "string \<Rightarrow> jsid \<Rightarrow> int \<Rightarrow> task" where
  "mkTask i p n \<equiv> \<lparr>task_id = i, parentTaskId = p, orderIndex = Some n\<rparr>"

abbreviation mkItem :: "string \<Rightarrow> jsid \<Rightarrow> jsid \<Rightarrow> int \<Rightarrow> item" where
  "mkItem i p f n \<equiv> \<lparr>item_id = i, parentId = p, folderId = f, item_orderIndex = Some n\<rparr>"

abbreviation taskEl :: "nat \<Rightarrow> string \<Rightarrow> element" where
  "taskEl n i \<equiv> \<lparr>node = n, dataset = [''type'' \<mapsto> ''task'', ''taskId'' \<mapsto> i],
                  rect = \<lparr>rect_top = 0, rect_bottom = 100, rect_left = 0, rect_right = 200, rect_height = 100\<rparr>\<rparr>"

abbreviation tasksABC :: "task list" where
  "tasksABC \<equiv> [mkTask ''A'' (Str ''P'') 0, mkTask ''B'' (Str ''P'') 1000, mkTask ''C'' (Str ''P'') 2000]"

abbreviation storeFL :: store where
  "storeFL \<equiv> \<lparr>folders = [mkItem ''F'' Null Undefined 0],
              objectives = [mkItem ''L'' Undefined Null 1000],
              notes_d = [], bookmarks = [], taskLists = []\<rparr>"

abbreviation sideEl :: "nat \<Rightarrow> string \<Rightarrow> string \<Rightarrow> string \<Rightarrow> element" where
  "sideEl n ty a i \<equiv> \<lparr>node = n, dataset = [''type'' \<mapsto> ty, a \<mapsto> i],
                      rect = \<lparr>rect_top = 0, rect_bottom = 100, rect_left = 0, rect_right = 200, rect_height = 100\<rparr>\<rparr>"

abbreviation tasksTie :: "task list" where
  "tasksTie \<equiv> [mkTask ''X'' (Str ''P'') 500, mkTask ''Y'' (Str ''P'') 500, mkTask ''Z'' (Str ''P'') 0]"

abbreviation storeTie :: store where
  "storeTie \<equiv> \<lparr>folders = [mkItem ''F'' Null Undefined 0],
               objectives = [mkItem ''L'' Undefined Null 0],
               notes_d = [mkItem ''N'' Undefined Null 0], bookmarks = [], taskLists = []\<rparr>"

abbreviation optsDefault :: options where
  "optsDefault \<equiv> \<lparr>opt_dropZoneThreshold = None, opt_isDropTarget = Some isDropTarget_task,
                   opt_canDrop = None, opt_getItemData = Some getItemData_task\<rparr>"

abbreviation idle :: dragstate where
  "idle \<equiv> \<lparr>isActive = False, hoverTargetEl = None, dragged = None\<rparr>"







abbreviation tstateABC :: tstate where
  "tstateABC \<equiv> \<lparr>currentTasks = tasksABC, storedTasks = tasksABC, loadFails = False,
                 taskListKnown = True, renderCount = 0, toasts = [], consoleErrors = [],
                 persistCalls = []\<rparr>"

abbreviation sstateFL :: sstate where
  "sstateFL \<equiv> \<lparr>sdata = storeFL, s_renderCount = 0, s_toasts = [], s_consoleErrors = [],
                s_persistCalls = []\<rparr>"

text \<open>
  The scenario of a failed save: two root tasks, in memory as they are stored, and a storage
  that refuses the write for task \<open>A\<close> only.
\<close>

abbreviation tasksAB :: "task list" where
  "tasksAB \<equiv> [mkTask ''A'' Null 0, mkTask ''B'' Null 1000]"

abbreviation tstateAB :: tstate where
  "tstateAB \<equiv> \<lparr>currentTasks = tasksAB, storedTasks = tasksAB, loadFails = False,
                taskListKnown = True, renderCount = 0, toasts = [], consoleErrors = [],
                persistCalls = []\<rparr>"

definition rejectsA :: "task_update \<Rightarrow> bool" where
  "rejectsA u = (upd_id u = ''A'')"

section \<open>The placement a node already has\<close>

text \<open>
  The neighbours a drop reports when a node is dropped where it already is: in the list
  \<open>L\<close> of its container's members, sorted by \<^verbatim>\<open>orderIndex\<close>, the id of the member just
  before the node and the id of the member just after it (none at the ends, and none when
  the node is not in the list).
\<close>

definition derivedPrevId :: "('a \<Rightarrow> string) \<Rightarrow> 'a list \<Rightarrow> jsid \<Rightarrow> jsid option" where
  "derivedPrevId ident L moved =
     (case findIndex (\<lambda>x. Str (ident x) = moved) L of
        None \<Rightarrow> None
      | Some i \<Rightarrow> (if i = 0 then None else Some (Str (ident (L ! (i - 1))))))"

definition derivedNextId :: "('a \<Rightarrow> string) \<Rightarrow> 'a list \<Rightarrow> jsid \<Rightarrow> jsid option" where
  "derivedNextId ident L moved =
     (case findIndex (\<lambda>x. Str (ident x) = moved) L of
        None \<Rightarrow> None
      | Some i \<Rightarrow> (if Suc i < length L then Some (Str (ident (L ! Suc i))) else None))"

text \<open>What one update of the task list does to one task.\<close>

definition taskStep :: "task_update \<Rightarrow> task \<Rightarrow> task" where
  "taskStep u t =
     (if task_id t = upd_id u
      then t\<lparr>orderIndex := Some (upd_orderIndex u), parentTaskId := upd_parentTaskId u\<rparr>
      else t)"

text \<open>
  The side list's five collections as one list of tagged items, in the order the planner
  visits them, and what one update does to one item of a given kind.
\<close>

definition allTagged :: "store \<Rightarrow> (kind \<times> item) list" where
  "allTagged d =
     map (Pair Folder) (folders d) @ map (Pair Objective) (objectives d) @
     map (Pair Note) (notes_d d) @ map (Pair Bookmark) (bookmarks d) @
     map (Pair TaskList) (taskLists d)"

definition itemStep :: "kind \<Rightarrow> item_update \<Rightarrow> item \<Rightarrow> item" where
  "itemStep k u i =
     (if u_type u = k \<and> item_id i = u_id u
      then (if k = Folder
            then i\<lparr>item_orderIndex := Some (u_orderIndex u), parentId := u_parentId u\<rparr>
            else i\<lparr>item_orderIndex := Some (u_orderIndex u), folderId := u_folderId u\<rparr>)
      else i)"

definition taggedStep :: "item_update \<Rightarrow> kind \<times> item \<Rightarrow> kind \<times> item" where
  "taggedStep u x = (fst x, itemStep (fst x) u (snd x))"

abbreviation upsABC :: "task_update list" where
  "upsABC \<equiv> [\<lparr>upd_id = ''A'', upd_orderIndex = 0, upd_parentTaskId = Str ''P''\<rparr>,
              \<lparr>upd_id = ''C'', upd_orderIndex = 1000, upd_parentTaskId = Str ''P''\<rparr>,
              \<lparr>upd_id = ''B'', upd_orderIndex = 2000, upd_parentTaskId = Str ''P''\<rparr>]"

abbreviation upsFL :: "item_update list" where
  "upsFL \<equiv> [\<lparr>u_id = ''L'', u_type = Objective, u_orderIndex = 0, u_parentId = Undefined,
              u_folderId = Str ''F''\<rparr>]"

section \<open>Termination of the descendant search\<close>

lemma concat_results_Some:
  "(\<And>r. r \<in> set rs \<Longrightarrow> r \<noteq> None) \<Longrightarrow> \<exists>ys. concat_results rs = Some ys"
proof (induction rs)
  case Nil
  show ?case by simp
next
  case (Cons r rs)
  from Cons.prems obtain xs where r: "r = Some xs" by auto
  from Cons obtain ys where "concat_results rs = Some ys" by auto
  with r show ?case by simp
qed

lemma concat_results_None:
  "None \<in> set rs \<Longrightarrow> concat_results rs = None"
  by (induction rs) (auto split: option.splits)

lemma getTaskDescendants_Suc:
  "getTaskDescendants fuel tasks x = Some ds \<Longrightarrow> getTaskDescendants (Suc fuel) tasks x = Some ds"
proof (induction fuel arbitrary: x ds)
  case 0
  then show ?case by simp
next
  case (Suc fuel)
  let ?cs = "filter (\<lambda>t. parentTaskId t = x) tasks"
  have all: "getTaskDescendants fuel tasks (Str (task_id c)) \<noteq> None" if "c \<in> set ?cs" for c
  proof
    assume "getTaskDescendants fuel tasks (Str (task_id c)) = None"
    with that have "None \<in> set (map (\<lambda>child. map_option (\<lambda>ds. task_id child # ds)
                        (getTaskDescendants fuel tasks (Str (task_id child)))) ?cs)"
      by force
    from concat_results_None [OF this] Suc.prems show False by simp
  qed
  have "map (\<lambda>child. map_option (\<lambda>ds. task_id child # ds)
                        (getTaskDescendants (Suc fuel) tasks (Str (task_id child)))) ?cs
      = map (\<lambda>child. map_option (\<lambda>ds. task_id child # ds)
                        (getTaskDescendants fuel tasks (Str (task_id child)))) ?cs"
  proof (rule map_cong [OF refl])
    fix c assume c: "c \<in> set ?cs"
    from all [OF c] obtain ds' where d: "getTaskDescendants fuel tasks (Str (task_id c)) = Some ds'"
      by auto
    from Suc.IH [OF d] d
    show "map_option (\<lambda>ds. task_id c # ds) (getTaskDescendants (Suc fuel) tasks (Str (task_id c)))
        = map_option (\<lambda>ds. task_id c # ds) (getTaskDescendants fuel tasks (Str (task_id c)))"
      by simp
  qed
  then have "getTaskDescendants (Suc (Suc fuel)) tasks x = getTaskDescendants (Suc fuel) tasks x"
    by (simp only: getTaskDescendants.simps)
  with Suc.prems show ?case by (simp only:)
qed

lemma getTaskDescendants_mono:
  "getTaskDescendants fuel tasks x = Some ds \<Longrightarrow> fuel \<le> fuel' \<Longrightarrow>
   getTaskDescendants fuel' tasks x = Some ds"
proof -
  assume r: "getTaskDescendants fuel tasks x = Some ds" and "fuel \<le> fuel'"
  then obtain k where k: "fuel' = fuel + k" by (auto simp: nat_le_iff_add)
  have "getTaskDescendants (fuel + k) tasks x = Some ds"
  proof (induction k)
    case 0
    from r show ?case by simp
  next
    case (Suc k)
    from getTaskDescendants_Suc [OF Suc] show ?case by (simp only: add_Suc_right)
  qed
  with k show ?thesis by (simp only:)
qed

lemma common_fuel:
  "(\<And>c. c \<in> set cs \<Longrightarrow> \<exists>n ds. getTaskDescendants n tasks (Str (task_id c)) = Some ds) \<Longrightarrow>
   \<exists>N. \<forall>c \<in> set cs. \<exists>ds. getTaskDescendants N tasks (Str (task_id c)) = Some ds"
proof (induction cs)
  case Nil
  show ?case by simp
next
  case (Cons c cs)
  from Cons obtain N where N: "\<forall>c \<in> set cs. \<exists>ds. getTaskDescendants N tasks (Str (task_id c)) = Some ds"
    by auto
  from Cons.prems [of c] obtain n ds where n: "getTaskDescendants n tasks (Str (task_id c)) = Some ds"
    by auto
  have "\<forall>c' \<in> set (c # cs). \<exists>ds. getTaskDescendants (max n N) tasks (Str (task_id c')) = Some ds"
  proof
    fix c' assume "c' \<in> set (c # cs)"
    then consider "c' = c" | "c' \<in> set cs" by auto
    then show "\<exists>ds. getTaskDescendants (max n N) tasks (Str (task_id c')) = Some ds"
    proof cases
      case 1
      from getTaskDescendants_mono [OF n, of "max n N"] 1 show ?thesis by simp
    next
      case 2
      with N obtain ds' where "getTaskDescendants N tasks (Str (task_id c')) = Some ds'" by auto
      from getTaskDescendants_mono [OF this, of "max n N"] show ?thesis by simp
    qed
  qed
  then show ?case ..
qed

lemma getTaskDescendants_returns:
  assumes "acyclic (parent_rel tasks)"
  shows "\<exists>fuel ds. getTaskDescendants fuel tasks taskId = Some ds"
proof -
  have "finite (parent_rel tasks)" by (simp add: parent_rel_def)
  then have "wf (parent_rel tasks)" using assms by (rule finite_acyclic_wf)
  then show ?thesis
  proof (induction taskId rule: wf_induct_rule)
    case (less x)
    let ?cs = "filter (\<lambda>t. parentTaskId t = x) tasks"
    have "\<exists>n ds. getTaskDescendants n tasks (Str (task_id c)) = Some ds" if "c \<in> set ?cs" for c
    proof (rule less)
      from that show "(Str (task_id c), x) \<in> parent_rel tasks"
        by (auto simp: parent_rel_def)
    qed
    from common_fuel [of ?cs tasks, OF this]
    obtain N where N: "\<forall>c \<in> set ?cs. \<exists>ds. getTaskDescendants N tasks (Str (task_id c)) = Some ds"
      by blast
    have "\<exists>ys. concat_results (map (\<lambda>child. map_option (\<lambda>ds. task_id child # ds)
                        (getTaskDescendants N tasks (Str (task_id child)))) ?cs) = Some ys"
      by (rule concat_results_Some) (use N in auto)
    then have "\<exists>ds. getTaskDescendants (Suc N) tasks x = Some ds" by simp
    then show ?case by blast
  qed
qed

lemma returns_no_cycle:
  "getTaskDescendants fuel tasks x = Some ds \<Longrightarrow> (x, x) \<notin> (parent_rel tasks)\<^sup>+"
proof (induction fuel arbitrary: x ds)
  case 0
  then show ?case by simp
next
  case (Suc fuel)
  show ?case
  proof
    assume "(x, x) \<in> (parent_rel tasks)\<^sup>+"
    then obtain z where xz: "(x, z) \<in> (parent_rel tasks)\<^sup>*" and zx: "(z, x) \<in> parent_rel tasks"
      by (auto dest: tranclD2)
    from zx obtain c where c: "c \<in> set tasks" "z = Str (task_id c)" "parentTaskId c = x"
      by (auto simp: parent_rel_def)
    let ?cs = "filter (\<lambda>t. parentTaskId t = x) tasks"
    have "getTaskDescendants fuel tasks z \<noteq> None"
    proof
      assume "getTaskDescendants fuel tasks z = None"
      with c have "None \<in> set (map (\<lambda>child. map_option (\<lambda>ds. task_id child # ds)
                        (getTaskDescendants fuel tasks (Str (task_id child)))) ?cs)"
        by force
      from concat_results_None [OF this] Suc.prems show False by simp
    qed
    then obtain ds' where "getTaskDescendants fuel tasks z = Some ds'" by auto
    from Suc.IH [OF this] have "(z, z) \<notin> (parent_rel tasks)\<^sup>+" .
    moreover from zx xz have "(z, z) \<in> (parent_rel tasks)\<^sup>+" by (rule rtrancl_into_trancl2)
    ultimately show False by contradiction
  qed
qed

lemma no_children_empty:
  "(\<And>t. t \<in> set tasks \<Longrightarrow> parentTaskId t \<noteq> taskId) \<Longrightarrow>
   getTaskDescendants (Suc fuel) tasks taskId = Some []"
proof -
  assume "\<And>t. t \<in> set tasks \<Longrightarrow> parentTaskId t \<noteq> taskId"
  then have "filter (\<lambda>t. parentTaskId t = taskId) tasks = []"
    by (simp add: filter_empty_conv)
  then show ?thesis by simp
qed

lemma cyclic_never_returns:
  assumes "\<not> acyclic (parent_rel tasks)"
  shows "\<exists>x. \<forall>fuel. getTaskDescendants fuel tasks x = None"
proof -
  from assms obtain x where x: "(x, x) \<in> (parent_rel tasks)\<^sup>+"
    by (auto simp: acyclic_def)
  have "getTaskDescendants fuel tasks x = None" for fuel
  proof (cases "getTaskDescendants fuel tasks x")
    case None
    then show ?thesis .
  next
    case (Some ds)
    from returns_no_cycle [OF this] x show ?thesis by contradiction
  qed
  then show ?thesis by blast
qed

text \<open>
  C10. On a task collection whose \<^verbatim>\<open>parentTaskId\<close> relation is acyclic,
  \<^verbatim>\<open>getTaskDescendants\<close> returns a list for every id (some recursion depth suffices), and
  so does \<^verbatim>\<open>isTaskDescendantOf\<close>; for an id that no task names as its parent (an id
  outside the collection included) the result is the empty list; and when the relation has
  a cycle there is an id on which the recursion never returns, whatever the depth allowed.
\<close>

theorem getTaskDescendants_terminates:
  "(acyclic (parent_rel tasks) \<longrightarrow>
      (\<exists>fuel ds. getTaskDescendants fuel tasks taskId = Some ds) \<and>
      (\<exists>fuel b. isTaskDescendantOf fuel tasks otherId taskId = Some b)) \<and>
   ((\<forall>t \<in> set tasks. parentTaskId t \<noteq> taskId) \<longrightarrow>
      getTaskDescendants (Suc fuel0) tasks taskId = Some []) \<and>
   (\<not> acyclic (parent_rel tasks) \<longrightarrow>
      (\<exists>x. \<forall>fuel. getTaskDescendants fuel tasks x = None))"
proof (intro conjI impI)
  assume a: "acyclic (parent_rel tasks)"
  from getTaskDescendants_returns [OF a]
  show r: "\<exists>fuel ds. getTaskDescendants fuel tasks taskId = Some ds" .
  then obtain fuel ds where "getTaskDescendants fuel tasks taskId = Some ds" by blast
  then have "\<exists>b. isTaskDescendantOf fuel tasks otherId taskId = Some b"
    by (cases "otherId = taskId") (auto simp: isTaskDescendantOf_def)
  then show "\<exists>fuel b. isTaskDescendantOf fuel tasks otherId taskId = Some b" ..
next
  assume "\<forall>t \<in> set tasks. parentTaskId t \<noteq> taskId"
  then show "getTaskDescendants (Suc fuel0) tasks taskId = Some []"
    by (intro no_children_empty) blast
next
  assume "\<not> acyclic (parent_rel tasks)"
  then show "\<exists>x. \<forall>fuel. getTaskDescendants fuel tasks x = None"
    by (rule cyclic_never_returns)
qed

theorem getTaskDescendants_terminates_witness:
  "acyclic (parent_rel [\<lparr>task_id = ''a'', parentTaskId = Null, orderIndex = Some 0\<rparr>,
                        \<lparr>task_id = ''b'', parentTaskId = Str ''a'', orderIndex = Some 0\<rparr>]) \<and>
   (\<exists>fuel ds. getTaskDescendants fuel
        [\<lparr>task_id = ''a'', parentTaskId = Null, orderIndex = Some 0\<rparr>,
         \<lparr>task_id = ''b'', parentTaskId = Str ''a'', orderIndex = Some 0\<rparr>] (Str ''a'') = Some ds) \<and>
   (\<exists>fuel b. isTaskDescendantOf fuel
        [\<lparr>task_id = ''a'', parentTaskId = Null, orderIndex = Some 0\<rparr>,
         \<lparr>task_id = ''b'', parentTaskId = Str ''a'', orderIndex = Some 0\<rparr>] (Str ''b'') (Str ''a'') = Some b) \<and>
   getTaskDescendants (Suc 0)
        [\<lparr>task_id = ''a'', parentTaskId = Null, orderIndex = Some 0\<rparr>,
         \<lparr>task_id = ''b'', parentTaskId = Str ''a'', orderIndex = Some 0\<rparr>] (Str ''zz'') = Some [] \<and>
   \<not> acyclic (parent_rel [\<lparr>task_id = ''a'', parentTaskId = Str ''a'', orderIndex = Some 0\<rparr>]) \<and>
   (\<exists>x. \<forall>fuel. getTaskDescendants fuel
        [\<lparr>task_id = ''a'', parentTaskId = Str ''a'', orderIndex = Some 0\<rparr>] x = None)"
proof -
  let ?good = "[\<lparr>task_id = ''a'', parentTaskId = Null, orderIndex = Some 0\<rparr>,
                \<lparr>task_id = ''b'', parentTaskId = Str ''a'', orderIndex = Some (0::int)\<rparr>]"
  let ?bad = "[\<lparr>task_id = ''a'', parentTaskId = Str ''a'', orderIndex = Some (0::int)\<rparr>]"
  let ?rank = "\<lambda>x. if x = Str ''b'' then 2 else if x = Str ''a'' then 1 else (0::nat)"
  have good: "acyclic (parent_rel ?good)"
    by (rule acyclicI_order [where f = ?rank]) (auto simp: parent_rel_def)
  have "(Str ''a'', Str ''a'') \<in> parent_rel ?bad"
    by (simp add: parent_rel_def)
  then have "(Str ''a'', Str ''a'') \<in> (parent_rel ?bad)\<^sup>+" ..
  then have bad: "\<not> acyclic (parent_rel ?bad)"
    unfolding acyclic_def by blast
  have leaf: "\<forall>t \<in> set ?good. parentTaskId t \<noteq> Str ''zz''" by simp
  from getTaskDescendants_terminates [of ?good "Str ''a''" "Str ''b''" 0] good
  have 1: "(\<exists>fuel ds. getTaskDescendants fuel ?good (Str ''a'') = Some ds) \<and>
           (\<exists>fuel b. isTaskDescendantOf fuel ?good (Str ''b'') (Str ''a'') = Some b)"
    by blast
  from getTaskDescendants_terminates [of ?good "Str ''zz''" "Str ''b''" 0] leaf
  have 2: "getTaskDescendants (Suc 0) ?good (Str ''zz'') = Some []"
    by blast
  from getTaskDescendants_terminates [of ?bad "Str ''a''" "Str ''b''" 0] bad
  have 3: "\<exists>x. \<forall>fuel. getTaskDescendants fuel ?bad x = None"
    by blast
  from good bad 1 2 3 show ?thesis by blast
qed

section \<open>The reorder planners\<close>

lemma length_splice_insert: "length (splice_insert i x xs) = Suc (length xs)"
  by (simp add: splice_insert_def)

lemma length_renumber: "length (renumber tgt xs) = length xs"
  by (simp add: renumber_def)

lemma nth_renumber:
  "i < length xs \<Longrightarrow>
   renumber tgt xs ! i = \<lparr>upd_id = task_id (xs ! i), upd_orderIndex = int i * 1000, upd_parentTaskId = tgt\<rparr>"
  by (simp add: renumber_def nth_enumerate_eq)

lemma ids_renumber: "map upd_id (renumber tgt xs) = map task_id xs"
  by (rule nth_equalityI) (simp_all add: length_renumber nth_renumber)

lemma length_renumber_items: "length (renumber_items tgt xs) = length xs"
  by (simp add: renumber_items_def)

lemma nth_renumber_items:
  "i < length xs \<Longrightarrow>
   renumber_items tgt xs ! i =
     \<lparr>u_id = tagged_id (xs ! i), u_type = fst (xs ! i), u_orderIndex = int i * 1000,
      u_parentId = (if fst (xs ! i) = Folder then tgt else Undefined),
      u_folderId = (if fst (xs ! i) \<noteq> Folder then tgt else Undefined)\<rparr>"
  by (simp add: renumber_items_def nth_enumerate_eq case_prod_beta)


lemma insertIndex_le: "insertIndex ident xs prevId hasNext \<le> length xs"
proof -
  have "findIndex P xs = Some n \<Longrightarrow> n < length xs" for P n
    by (induction xs arbitrary: n) (auto split: if_splits)
  then show ?thesis
    by (fastforce simp: insertIndex_def split: option.splits)
qed

lemma sortByOrderIndex_filter:
  "filter P (sortByOrderIndex oi xs) = sortByOrderIndex oi (filter P xs)"
  by (simp add: sortByOrderIndex_def filter_sort)












lemma findIndex_None_iff: "findIndex P xs = None \<longleftrightarrow> (\<forall>x \<in> set xs. \<not> P x)"
  by (induction xs) auto

lemma insertIndex_stale:
  "pid \<notin> (\<lambda>t. Str (ident t)) ` set siblings \<Longrightarrow> insertIndex ident siblings (Some pid) hasNext = 0"
proof -
  assume "pid \<notin> (\<lambda>t. Str (ident t)) ` set siblings"
  then have "findIndex (\<lambda>t. Str (ident t) = pid) siblings = None"
    by (auto simp: findIndex_None_iff)
  then show ?thesis by (simp add: insertIndex_def)
qed

lemma insertIndex_next_only: "insertIndex ident siblings None True = 0"
  by (simp add: insertIndex_def)

lemma task_plan_eq:
  "find (\<lambda>t. Str (task_id t) = taskId) tasks = Some m \<Longrightarrow>
   buildUpdatesArray tasks taskId target prevEl nextEl =
     Some (renumber target
            (splice_insert
               (insertIndex task_id
                  (sortByOrderIndex orderIndex
                     (filter (\<lambda>t. Str (task_id t) \<noteq> taskId)
                        (filter (\<lambda>t. or_null (parentTaskId t) = target) tasks)))
                  (map_option (\<lambda>el. attr el ''taskId'') prevEl) (nextEl \<noteq> None))
               m
               (sortByOrderIndex orderIndex
                  (filter (\<lambda>t. Str (task_id t) \<noteq> taskId)
                     (filter (\<lambda>t. or_null (parentTaskId t) = target) tasks)))))"
  by (simp add: buildUpdatesArray_def sortByOrderIndex_filter Let_def)

lemma side_plan_eq:
  "kind_of ty = Some k \<Longrightarrow> find (\<lambda>i. Str (item_id i) = ident) (collection d k) = Some m \<Longrightarrow>
   buildUpdatesArray_side d ty ident target prevEl nextEl =
     Some (renumber_items target
            (splice_insert
               (insertIndex tagged_id
                  (sortByOrderIndex tagged_orderIndex
                     (filter (\<lambda>x. Str (tagged_id x) \<noteq> ident) (itemsIn d target)))
                  (map_option getItemIdFromElement prevEl) (nextEl \<noteq> None))
               (k, m)
               (sortByOrderIndex tagged_orderIndex
                  (filter (\<lambda>x. Str (tagged_id x) \<noteq> ident) (itemsIn d target)))))"
  by (simp add: buildUpdatesArray_side_def sortByOrderIndex_filter Let_def)

text \<open>
  C2, amended. When the moved node exists and the previous element's id does not occur in
  the sorted sibling list, the planner does not fail and inserts the moved node at index 0,
  in front of all remaining siblings; when there is no previous element but there is a next
  one, the moved node is inserted at index 0 as well, whatever the next element's index.
  Both planners behave so.
\<close>

theorem planner_fallback_front:
  "(find (\<lambda>t. Str (task_id t) = taskId) tasks = Some m \<and>
    sibs = sortByOrderIndex orderIndex
             (filter (\<lambda>t. Str (task_id t) \<noteq> taskId)
                (filter (\<lambda>t. or_null (parentTaskId t) = target) tasks)) \<and>
    ((\<exists>p. prevEl = Some p \<and> attr p ''taskId'' \<notin> (\<lambda>t. Str (task_id t)) ` set sibs) \<or>
     (prevEl = None \<and> nextEl \<noteq> None))
    \<longrightarrow> buildUpdatesArray tasks taskId target prevEl nextEl
          = Some (renumber target (m # sibs))) \<and>
   (kind_of ty = Some kd \<and>
    find (\<lambda>i. Str (item_id i) = ident) (collection d kd) = Some dropped \<and>
    items = sortByOrderIndex tagged_orderIndex
              (filter (\<lambda>x. Str (tagged_id x) \<noteq> ident) (itemsIn d target)) \<and>
    ((\<exists>p. prevEl = Some p \<and>
          getItemIdFromElement p \<notin> (\<lambda>x. Str (tagged_id x)) ` set items) \<or>
     (prevEl = None \<and> nextEl \<noteq> None))
    \<longrightarrow> buildUpdatesArray_side d ty ident target prevEl nextEl
          = Some (renumber_items target ((kd, dropped) # items)))"
proof (intro conjI impI)
  assume a: "find (\<lambda>t. Str (task_id t) = taskId) tasks = Some m \<and>
    sibs = sortByOrderIndex orderIndex
             (filter (\<lambda>t. Str (task_id t) \<noteq> taskId)
                (filter (\<lambda>t. or_null (parentTaskId t) = target) tasks)) \<and>
    ((\<exists>p. prevEl = Some p \<and> attr p ''taskId'' \<notin> (\<lambda>t. Str (task_id t)) ` set sibs) \<or>
     (prevEl = None \<and> nextEl \<noteq> None))"
  then have "insertIndex task_id sibs (map_option (\<lambda>el. attr el ''taskId'') prevEl) (nextEl \<noteq> None) = 0"
    by (auto simp: insertIndex_stale insertIndex_next_only)
  with a show "buildUpdatesArray tasks taskId target prevEl nextEl = Some (renumber target (m # sibs))"
    by (simp add: task_plan_eq splice_insert_def)
next
  assume a: "kind_of ty = Some kd \<and>
    find (\<lambda>i. Str (item_id i) = ident) (collection d kd) = Some dropped \<and>
    items = sortByOrderIndex tagged_orderIndex
              (filter (\<lambda>x. Str (tagged_id x) \<noteq> ident) (itemsIn d target)) \<and>
    ((\<exists>p. prevEl = Some p \<and>
          getItemIdFromElement p \<notin> (\<lambda>x. Str (tagged_id x)) ` set items) \<or>
     (prevEl = None \<and> nextEl \<noteq> None))"
  have "(\<lambda>t. Str (tagged_id t)) = (\<lambda>x. Str (tagged_id x))"
    by (simp add: fun_eq_iff)
  with a have "insertIndex tagged_id items (map_option getItemIdFromElement prevEl) (nextEl \<noteq> None) = 0"
    by (auto simp: insertIndex_stale insertIndex_next_only)
  with a show "buildUpdatesArray_side d ty ident target prevEl nextEl
          = Some (renumber_items target ((kd, dropped) # items))"
    by (simp add: side_plan_eq splice_insert_def)
qed

text \<open>
  C2, as stated, fails. With siblings A, B (in that order) and C being moved: a previous
  element whose id is not among the siblings puts C first, not last; and with no previous
  element but B as the next one, C is put first as well, not at B's index.
\<close>

theorem planner_fallback_counterexample:
  "buildUpdatesArray tasksABC (Str ''C'') (Str ''P'') (Some (taskEl 9 ''gone'')) None
     = Some [\<lparr>upd_id = ''C'', upd_orderIndex = 0, upd_parentTaskId = Str ''P''\<rparr>,
             \<lparr>upd_id = ''A'', upd_orderIndex = 1000, upd_parentTaskId = Str ''P''\<rparr>,
             \<lparr>upd_id = ''B'', upd_orderIndex = 2000, upd_parentTaskId = Str ''P''\<rparr>] \<and>
   buildUpdatesArray tasksABC (Str ''C'') (Str ''P'') None (Some (taskEl 2 ''B''))
     = Some [\<lparr>upd_id = ''C'', upd_orderIndex = 0, upd_parentTaskId = Str ''P''\<rparr>,
             \<lparr>upd_id = ''A'', upd_orderIndex = 1000, upd_parentTaskId = Str ''P''\<rparr>,
             \<lparr>upd_id = ''B'', upd_orderIndex = 2000, upd_parentTaskId = Str ''P''\<rparr>]"
  by (simp add: buildUpdatesArray_def sortByOrderIndex_def insertIndex_def attr_def
        splice_insert_def renumber_def Let_def)

theorem planner_fallback_front_witness:
  "buildUpdatesArray tasksABC (Str ''C'') (Str ''P'') (Some (taskEl 9 ''gone'')) None
     = Some (renumber (Str ''P'')
               [mkTask ''C'' (Str ''P'') 2000, mkTask ''A'' (Str ''P'') 0, mkTask ''B'' (Str ''P'') 1000]) \<and>
   buildUpdatesArray tasksABC (Str ''C'') (Str ''P'') None (Some (taskEl 2 ''B''))
     = Some (renumber (Str ''P'')
               [mkTask ''C'' (Str ''P'') 2000, mkTask ''A'' (Str ''P'') 0, mkTask ''B'' (Str ''P'') 1000]) \<and>
   buildUpdatesArray_side storeFL (Str ''objective'') (Str ''L'') Null
       (Some (sideEl 9 ''note'' ''noteId'' ''gone'')) None
     = Some (renumber_items Null
               [(Objective, mkItem ''L'' Undefined Null 1000), (Folder, mkItem ''F'' Null Undefined 0)]) \<and>
   buildUpdatesArray_side storeFL (Str ''objective'') (Str ''L'') Null
       None (Some (sideEl 1 ''folder'' ''folderId'' ''F''))
     = Some (renumber_items Null
               [(Objective, mkItem ''L'' Undefined Null 1000), (Folder, mkItem ''F'' Null Undefined 0)])"
proof -
  let ?sibs = "[mkTask ''A'' (Str ''P'') 0, mkTask ''B'' (Str ''P'') 1000]"
  let ?items = "[(Folder, mkItem ''F'' Null Undefined 0)]"
  have f: "find (\<lambda>t. Str (task_id t) = Str ''C'') tasksABC = Some (mkTask ''C'' (Str ''P'') 2000)"
    by simp
  have s: "?sibs = sortByOrderIndex orderIndex
             (filter (\<lambda>t. Str (task_id t) \<noteq> Str ''C'')
                (filter (\<lambda>t. or_null (parentTaskId t) = Str ''P'') tasksABC))"
    by (simp add: sortByOrderIndex_def)
  have stale: "attr (taskEl 9 ''gone'') ''taskId'' \<notin> (\<lambda>t. Str (task_id t)) ` set ?sibs"
    by (simp add: attr_def)
  have k: "kind_of (Str ''objective'') = Some Objective"
    by (simp add: kind_of_def)
  have f': "find (\<lambda>i. Str (item_id i) = Str ''L'') (collection storeFL Objective)
              = Some (mkItem ''L'' Undefined Null 1000)"
    by (simp add: collection_def)
  have s': "?items = sortByOrderIndex tagged_orderIndex
              (filter (\<lambda>x. Str (tagged_id x) \<noteq> Str ''L'') (itemsIn storeFL Null))"
    by (simp add: sortByOrderIndex_def itemsIn_def tagged_id_def)
  have stale': "getItemIdFromElement (sideEl 9 ''note'' ''noteId'' ''gone'')
                  \<notin> (\<lambda>x. Str (tagged_id x)) ` set ?items"
    by (simp add: getItemIdFromElement_def kind_of_def attr_def tagged_id_def)
  from f s stale
    planner_fallback_front [where tasks = tasksABC and taskId = "Str ''C''" and target = "Str ''P''"
      and m = "mkTask ''C'' (Str ''P'') 2000" and sibs = ?sibs
      and prevEl = "Some (taskEl 9 ''gone'')" and nextEl = None]
  have 1: "buildUpdatesArray tasksABC (Str ''C'') (Str ''P'') (Some (taskEl 9 ''gone'')) None
     = Some (renumber (Str ''P'') (mkTask ''C'' (Str ''P'') 2000 # ?sibs))"
    by blast
  from f s
    planner_fallback_front [where tasks = tasksABC and taskId = "Str ''C''" and target = "Str ''P''"
      and m = "mkTask ''C'' (Str ''P'') 2000" and sibs = ?sibs
      and prevEl = None and nextEl = "Some (taskEl 2 ''B'')"]
  have 2: "buildUpdatesArray tasksABC (Str ''C'') (Str ''P'') None (Some (taskEl 2 ''B''))
     = Some (renumber (Str ''P'') (mkTask ''C'' (Str ''P'') 2000 # ?sibs))"
    by blast
  from k f' s' stale'
    planner_fallback_front [where d = storeFL and ty = "Str ''objective''" and kd = Objective
      and ident = "Str ''L''" and target = Null and dropped = "mkItem ''L'' Undefined Null 1000"
      and items = ?items and prevEl = "Some (sideEl 9 ''note'' ''noteId'' ''gone'')" and nextEl = None]
  have 3: "buildUpdatesArray_side storeFL (Str ''objective'') (Str ''L'') Null
       (Some (sideEl 9 ''note'' ''noteId'' ''gone'')) None
     = Some (renumber_items Null ((Objective, mkItem ''L'' Undefined Null 1000) # ?items))"
    by blast
  from k f' s'
    planner_fallback_front [where d = storeFL and ty = "Str ''objective''" and kd = Objective
      and ident = "Str ''L''" and target = Null and dropped = "mkItem ''L'' Undefined Null 1000"
      and items = ?items and prevEl = None and nextEl = "Some (sideEl 1 ''folder'' ''folderId'' ''F'')"]
  have 4: "buildUpdatesArray_side storeFL (Str ''objective'') (Str ''L'') Null
       None (Some (sideEl 1 ''folder'' ''folderId'' ''F''))
     = Some (renumber_items Null ((Objective, mkItem ''L'' Undefined Null 1000) # ?items))"
    by blast
  from 1 2 3 4 show ?thesis by blast
qed

lemma stable_sort_unique:
  assumes "mset ys = mset xs"
    and "sorted (map (\<lambda>x. or_zero (oi x)) ys)"
    and "\<And>k. filter (\<lambda>x. or_zero (oi x) = k) ys = filter (\<lambda>x. or_zero (oi x) = k) xs"
  shows "ys = sortByOrderIndex oi xs"
proof -
  have "sort_key (\<lambda>x. or_zero (oi x)) xs = ys"
  proof (rule properties_for_sort_key)
    show "mset ys = mset xs" by fact
    show "sorted (map (\<lambda>x. or_zero (oi x)) ys)" by fact
    fix k
    from assms(3) [of "or_zero (oi k)"]
    show "filter (\<lambda>x. or_zero (oi k) = or_zero (oi x)) ys = filter (\<lambda>x. or_zero (oi k) = or_zero (oi x)) xs"
      by (simp add: eq_commute)
  qed
  then show ?thesis by (simp add: sortByOrderIndex_def)
qed

lemma sortByOrderIndex_stable:
  "filter (\<lambda>x. or_zero (oi x) = k) (sortByOrderIndex oi xs) = filter (\<lambda>x. or_zero (oi x) = k) xs"
  by (simp add: sortByOrderIndex_def sort_key_stable)

lemma map_option_eq_None_iff: "map_option f a = map_option f b \<Longrightarrow> (a \<noteq> None) = (b \<noteq> None)"
  by (cases a; cases b) auto

text \<open>
  C9. The planners are deterministic. Their result depends on the inputs only through the
  node collection (in its order), the moved id, the target and the ids of the previous and
  next elements: two runs that agree on these return the same update list, whatever else
  differs between the DOM elements. Siblings that share an \<^verbatim>\<open>orderIndex\<close> are no source of
  freedom: the sibling order the plan is built from is the only arrangement of the container
  that is sorted by \<^verbatim>\<open>orderIndex\<close> and keeps equal keys in collection order, so every
  stable sort yields the same plan.
\<close>

theorem planner_deterministic:
  "(tasks' = tasks \<and> taskId' = taskId \<and> target' = target \<and>
    map_option (\<lambda>el. attr el ''taskId'') prevEl' = map_option (\<lambda>el. attr el ''taskId'') prevEl \<and>
    map_option (\<lambda>el. attr el ''taskId'') nextEl' = map_option (\<lambda>el. attr el ''taskId'') nextEl
    \<longrightarrow> buildUpdatesArray tasks' taskId' target' prevEl' nextEl'
          = buildUpdatesArray tasks taskId target prevEl nextEl) \<and>
   (find (\<lambda>t. Str (task_id t) = taskId) tasks = Some m \<and>
    mset ys = mset (filter (\<lambda>t. Str (task_id t) \<noteq> taskId)
                      (filter (\<lambda>t. or_null (parentTaskId t) = target) tasks)) \<and>
    sorted (map (\<lambda>t. or_zero (orderIndex t)) ys) \<and>
    (\<forall>k. filter (\<lambda>t. or_zero (orderIndex t) = k) ys
         = filter (\<lambda>t. or_zero (orderIndex t) = k)
             (filter (\<lambda>t. Str (task_id t) \<noteq> taskId)
                (filter (\<lambda>t. or_null (parentTaskId t) = target) tasks)))
    \<longrightarrow> buildUpdatesArray tasks taskId target prevEl nextEl
          = Some (renumber target
                   (splice_insert
                      (insertIndex task_id ys (map_option (\<lambda>el. attr el ''taskId'') prevEl)
                         (nextEl \<noteq> None))
                      m ys))) \<and>
   (d' = d \<and> ty' = ty \<and> ident' = ident \<and> target' = target \<and>
    map_option getItemIdFromElement prevEl' = map_option getItemIdFromElement prevEl \<and>
    map_option getItemIdFromElement nextEl' = map_option getItemIdFromElement nextEl
    \<longrightarrow> buildUpdatesArray_side d' ty' ident' target' prevEl' nextEl'
          = buildUpdatesArray_side d ty ident target prevEl nextEl) \<and>
   (kind_of ty = Some kd \<and>
    find (\<lambda>i. Str (item_id i) = ident) (collection d kd) = Some dropped \<and>
    mset zs = mset (filter (\<lambda>x. Str (tagged_id x) \<noteq> ident) (itemsIn d target)) \<and>
    sorted (map (\<lambda>x. or_zero (tagged_orderIndex x)) zs) \<and>
    (\<forall>k. filter (\<lambda>x. or_zero (tagged_orderIndex x) = k) zs
         = filter (\<lambda>x. or_zero (tagged_orderIndex x) = k)
             (filter (\<lambda>x. Str (tagged_id x) \<noteq> ident) (itemsIn d target)))
    \<longrightarrow> buildUpdatesArray_side d ty ident target prevEl nextEl
          = Some (renumber_items target
                   (splice_insert
                      (insertIndex tagged_id zs (map_option getItemIdFromElement prevEl)
                         (nextEl \<noteq> None))
                      (kd, dropped) zs)))"
proof (intro conjI impI)
  assume a: "tasks' = tasks \<and> taskId' = taskId \<and> target' = target \<and>
    map_option (\<lambda>el. attr el ''taskId'') prevEl' = map_option (\<lambda>el. attr el ''taskId'') prevEl \<and>
    map_option (\<lambda>el. attr el ''taskId'') nextEl' = map_option (\<lambda>el. attr el ''taskId'') nextEl"
  then have e: "tasks' = tasks" "taskId' = taskId" "target' = target"
    and p: "map_option (\<lambda>el. attr el ''taskId'') prevEl' = map_option (\<lambda>el. attr el ''taskId'') prevEl"
    by blast+
  from a have n: "(nextEl' \<noteq> None) = (nextEl \<noteq> None)"
    by (intro map_option_eq_None_iff) blast
  show "buildUpdatesArray tasks' taskId' target' prevEl' nextEl'
          = buildUpdatesArray tasks taskId target prevEl nextEl"
    by (simp only: buildUpdatesArray_def e p n)
next
  assume a: "find (\<lambda>t. Str (task_id t) = taskId) tasks = Some m \<and>
    mset ys = mset (filter (\<lambda>t. Str (task_id t) \<noteq> taskId)
                      (filter (\<lambda>t. or_null (parentTaskId t) = target) tasks)) \<and>
    sorted (map (\<lambda>t. or_zero (orderIndex t)) ys) \<and>
    (\<forall>k. filter (\<lambda>t. or_zero (orderIndex t) = k) ys
         = filter (\<lambda>t. or_zero (orderIndex t) = k)
             (filter (\<lambda>t. Str (task_id t) \<noteq> taskId)
                (filter (\<lambda>t. or_null (parentTaskId t) = target) tasks)))"
  then have "ys = sortByOrderIndex orderIndex
                    (filter (\<lambda>t. Str (task_id t) \<noteq> taskId)
                       (filter (\<lambda>t. or_null (parentTaskId t) = target) tasks))"
    by (intro stable_sort_unique) blast+
  with a show "buildUpdatesArray tasks taskId target prevEl nextEl
          = Some (renumber target
                   (splice_insert
                      (insertIndex task_id ys (map_option (\<lambda>el. attr el ''taskId'') prevEl)
                         (nextEl \<noteq> None))
                      m ys))"
    by (simp only: task_plan_eq)
next
  assume a: "d' = d \<and> ty' = ty \<and> ident' = ident \<and> target' = target \<and>
    map_option getItemIdFromElement prevEl' = map_option getItemIdFromElement prevEl \<and>
    map_option getItemIdFromElement nextEl' = map_option getItemIdFromElement nextEl"
  then have e: "d' = d" "ty' = ty" "ident' = ident" "target' = target"
    and p: "map_option getItemIdFromElement prevEl' = map_option getItemIdFromElement prevEl"
    by blast+
  from a have n: "(nextEl' \<noteq> None) = (nextEl \<noteq> None)"
    by (intro map_option_eq_None_iff) blast
  show "buildUpdatesArray_side d' ty' ident' target' prevEl' nextEl'
          = buildUpdatesArray_side d ty ident target prevEl nextEl"
    by (simp only: buildUpdatesArray_side_def e p n)
next
  assume a: "kind_of ty = Some kd \<and>
    find (\<lambda>i. Str (item_id i) = ident) (collection d kd) = Some dropped \<and>
    mset zs = mset (filter (\<lambda>x. Str (tagged_id x) \<noteq> ident) (itemsIn d target)) \<and>
    sorted (map (\<lambda>x. or_zero (tagged_orderIndex x)) zs) \<and>
    (\<forall>k. filter (\<lambda>x. or_zero (tagged_orderIndex x) = k) zs
         = filter (\<lambda>x. or_zero (tagged_orderIndex x) = k)
             (filter (\<lambda>x. Str (tagged_id x) \<noteq> ident) (itemsIn d target)))"
  then have "zs = sortByOrderIndex tagged_orderIndex
                    (filter (\<lambda>x. Str (tagged_id x) \<noteq> ident) (itemsIn d target))"
    by (intro stable_sort_unique) blast+
  with a show "buildUpdatesArray_side d ty ident target prevEl nextEl
          = Some (renumber_items target
                   (splice_insert
                      (insertIndex tagged_id zs (map_option getItemIdFromElement prevEl)
                         (nextEl \<noteq> None))
                      (kd, dropped) zs))"
    by (simp only: side_plan_eq)
qed

theorem planner_deterministic_witness:
  "buildUpdatesArray tasksTie (Str ''Z'') (Str ''P'') (Some (taskEl 7 ''Y'')) None
     = buildUpdatesArray tasksTie (Str ''Z'') (Str ''P'') (Some (taskEl 1 ''Y'')) None \<and>
   buildUpdatesArray tasksTie (Str ''Z'') (Str ''P'') (Some (taskEl 1 ''Y'')) None
     = Some (renumber (Str ''P'')
               [mkTask ''X'' (Str ''P'') 500, mkTask ''Y'' (Str ''P'') 500, mkTask ''Z'' (Str ''P'') 0]) \<and>
   buildUpdatesArray_side storeTie (Str ''note'') (Str ''N'') Null
       (Some (sideEl 7 ''objective'' ''objectiveId'' ''L'')) None
     = buildUpdatesArray_side storeTie (Str ''note'') (Str ''N'') Null
         (Some (sideEl 1 ''objective'' ''objectiveId'' ''L'')) None \<and>
   buildUpdatesArray_side storeTie (Str ''note'') (Str ''N'') Null
       (Some (sideEl 1 ''objective'' ''objectiveId'' ''L'')) None
     = Some (renumber_items Null
               [(Folder, mkItem ''F'' Null Undefined 0), (Objective, mkItem ''L'' Undefined Null 0),
                (Note, mkItem ''N'' Undefined Null 0)])"
proof -
  let ?ys = "[mkTask ''X'' (Str ''P'') 500, mkTask ''Y'' (Str ''P'') 500]"
  let ?zs = "[(Folder, mkItem ''F'' Null Undefined 0), (Objective, mkItem ''L'' Undefined Null 0)]"
  have p: "map_option (\<lambda>el. attr el ''taskId'') (Some (taskEl 7 ''Y''))
         = map_option (\<lambda>el. attr el ''taskId'') (Some (taskEl 1 ''Y''))"
    by (simp add: attr_def)
  have n: "map_option (\<lambda>el. attr el ''taskId'') None = map_option (\<lambda>el. attr el ''taskId'') None"
    by simp
  from p n
    planner_deterministic [where tasks' = tasksTie and tasks = tasksTie and taskId' = "Str ''Z''"
      and taskId = "Str ''Z''" and target' = "Str ''P''" and target = "Str ''P''"
      and prevEl' = "Some (taskEl 7 ''Y'')" and prevEl = "Some (taskEl 1 ''Y'')"
      and nextEl' = None and nextEl = None]
  have 1: "buildUpdatesArray tasksTie (Str ''Z'') (Str ''P'') (Some (taskEl 7 ''Y'')) None
     = buildUpdatesArray tasksTie (Str ''Z'') (Str ''P'') (Some (taskEl 1 ''Y'')) None"
    by blast
  have f: "find (\<lambda>t. Str (task_id t) = Str ''Z'') tasksTie = Some (mkTask ''Z'' (Str ''P'') 0)"
    by simp
  have m: "mset ?ys = mset (filter (\<lambda>t. Str (task_id t) \<noteq> Str ''Z'')
                      (filter (\<lambda>t. or_null (parentTaskId t) = Str ''P'') tasksTie))"
    by simp
  have s: "sorted (map (\<lambda>t. or_zero (orderIndex t)) ?ys)"
    by simp
  have st: "\<forall>k. filter (\<lambda>t. or_zero (orderIndex t) = k) ?ys
         = filter (\<lambda>t. or_zero (orderIndex t) = k)
             (filter (\<lambda>t. Str (task_id t) \<noteq> Str ''Z'')
                (filter (\<lambda>t. or_null (parentTaskId t) = Str ''P'') tasksTie))"
    by simp
  have i: "splice_insert (insertIndex task_id ?ys
              (map_option (\<lambda>el. attr el ''taskId'') (Some (taskEl 1 ''Y''))) (None \<noteq> (None :: element option)))
              (mkTask ''Z'' (Str ''P'') 0) ?ys
           = [mkTask ''X'' (Str ''P'') 500, mkTask ''Y'' (Str ''P'') 500, mkTask ''Z'' (Str ''P'') 0]"
    by (simp add: insertIndex_def attr_def splice_insert_def)
  from f m s st
    planner_deterministic [where tasks = tasksTie and taskId = "Str ''Z''" and target = "Str ''P''"
      and m = "mkTask ''Z'' (Str ''P'') 0" and ys = ?ys
      and prevEl = "Some (taskEl 1 ''Y'')" and nextEl = None]
  have "buildUpdatesArray tasksTie (Str ''Z'') (Str ''P'') (Some (taskEl 1 ''Y'')) None
     = Some (renumber (Str ''P'')
              (splice_insert (insertIndex task_id ?ys
                 (map_option (\<lambda>el. attr el ''taskId'') (Some (taskEl 1 ''Y''))) (None \<noteq> (None :: element option)))
                 (mkTask ''Z'' (Str ''P'') 0) ?ys))"
    by blast
  with i have 2: "buildUpdatesArray tasksTie (Str ''Z'') (Str ''P'') (Some (taskEl 1 ''Y'')) None
     = Some (renumber (Str ''P'')
               [mkTask ''X'' (Str ''P'') 500, mkTask ''Y'' (Str ''P'') 500, mkTask ''Z'' (Str ''P'') 0])"
    by (simp only:)
  have p': "map_option getItemIdFromElement (Some (sideEl 7 ''objective'' ''objectiveId'' ''L''))
          = map_option getItemIdFromElement (Some (sideEl 1 ''objective'' ''objectiveId'' ''L''))"
    by (simp add: getItemIdFromElement_def kind_of_def attr_def)
  have n': "map_option getItemIdFromElement None = map_option getItemIdFromElement None"
    by simp
  from p' n'
    planner_deterministic [where d' = storeTie and d = storeTie and ty' = "Str ''note''"
      and ty = "Str ''note''" and ident' = "Str ''N''" and ident = "Str ''N''"
      and target' = Null and target = Null
      and prevEl' = "Some (sideEl 7 ''objective'' ''objectiveId'' ''L'')"
      and prevEl = "Some (sideEl 1 ''objective'' ''objectiveId'' ''L'')"
      and nextEl' = None and nextEl = None]
  have 3: "buildUpdatesArray_side storeTie (Str ''note'') (Str ''N'') Null
       (Some (sideEl 7 ''objective'' ''objectiveId'' ''L'')) None
     = buildUpdatesArray_side storeTie (Str ''note'') (Str ''N'') Null
         (Some (sideEl 1 ''objective'' ''objectiveId'' ''L'')) None"
    by blast
  have k: "kind_of (Str ''note'') = Some Note"
    by (simp add: kind_of_def)
  have f': "find (\<lambda>i. Str (item_id i) = Str ''N'') (collection storeTie Note)
              = Some (mkItem ''N'' Undefined Null 0)"
    by (simp add: collection_def)
  have m': "mset ?zs = mset (filter (\<lambda>x. Str (tagged_id x) \<noteq> Str ''N'') (itemsIn storeTie Null))"
    by (simp add: itemsIn_def tagged_id_def)
  have s': "sorted (map (\<lambda>x. or_zero (tagged_orderIndex x)) ?zs)"
    by (simp add: tagged_orderIndex_def)
  have st': "\<forall>k. filter (\<lambda>x. or_zero (tagged_orderIndex x) = k) ?zs
         = filter (\<lambda>x. or_zero (tagged_orderIndex x) = k)
             (filter (\<lambda>x. Str (tagged_id x) \<noteq> Str ''N'') (itemsIn storeTie Null))"
    by (simp add: itemsIn_def tagged_id_def)
  have i': "splice_insert (insertIndex tagged_id ?zs
              (map_option getItemIdFromElement (Some (sideEl 1 ''objective'' ''objectiveId'' ''L'')))
              (None \<noteq> (None :: element option)))
              (Note, mkItem ''N'' Undefined Null 0) ?zs
           = [(Folder, mkItem ''F'' Null Undefined 0), (Objective, mkItem ''L'' Undefined Null 0),
              (Note, mkItem ''N'' Undefined Null 0)]"
    by (simp add: insertIndex_def getItemIdFromElement_def kind_of_def attr_def splice_insert_def
          tagged_id_def)
  from k f' m' s' st'
    planner_deterministic [where d = storeTie and ty = "Str ''note''" and kd = Note
      and ident = "Str ''N''" and target = Null and dropped = "mkItem ''N'' Undefined Null 0"
      and zs = ?zs and prevEl = "Some (sideEl 1 ''objective'' ''objectiveId'' ''L'')" and nextEl = None]
  have "buildUpdatesArray_side storeTie (Str ''note'') (Str ''N'') Null
       (Some (sideEl 1 ''objective'' ''objectiveId'' ''L'')) None
     = Some (renumber_items Null
              (splice_insert (insertIndex tagged_id ?zs
                 (map_option getItemIdFromElement (Some (sideEl 1 ''objective'' ''objectiveId'' ''L'')))
                 (None \<noteq> (None :: element option)))
                 (Note, mkItem ''N'' Undefined Null 0) ?zs))"
    by blast
  with i' have 4: "buildUpdatesArray_side storeTie (Str ''note'') (Str ''N'') Null
       (Some (sideEl 1 ''objective'' ''objectiveId'' ''L'')) None
     = Some (renumber_items Null
               [(Folder, mkItem ''F'' Null Undefined 0), (Objective, mkItem ''L'' Undefined Null 0),
                (Note, mkItem ''N'' Undefined Null 0)])"
    by (simp only:)
  from 1 2 3 4 show ?thesis by blast
qed

section \<open>The sortable engine\<close>








lemma ulp_search_pos:
  fixes u a :: real
  shows "0 < u \<Longrightarrow> 0 < foldl (\<lambda>u k. if u * 2 ^ (k + 52) \<le> a then u * 2 ^ k else u) u (ks :: nat list)"
  by (induction ks arbitrary: u) simp_all

lemma ulp_pos: "0 < ulp x"
  unfolding ulp_def by (rule ulp_search_pos) simp

lemma rne_nearest: "\<bar>of_int (rne y) - y\<bar> \<le> 1 / 2"
proof -
  define f where "f = \<lfloor>y\<rfloor>"
  have b: "of_int f \<le> y" "y < of_int f + 1" unfolding f_def by linarith+
  have "rne y = (if y - of_int f < 1 / 2 then f else if 1 / 2 < y - of_int f then f + 1
                 else if even f then f else f + 1)"
    by (simp add: rne_def Let_def f_def)
  with b show ?thesis
    by (simp add: abs_if split: if_splits)
qed

lemma fl_nearest:
  assumes "fl x = Fin r"
  shows "\<bar>r - x\<bar> \<le> ulp x / 2"
proof -
  have u: "0 < ulp x" by (rule ulp_pos)
  from assms have r: "r = of_int (rne (x / ulp x)) * ulp x"
    by (auto simp: fl_def Let_def split: if_splits)
  have "r - x = (of_int (rne (x / ulp x)) - x / ulp x) * ulp x"
    using u by (simp add: r left_diff_distrib)
  then have "\<bar>r - x\<bar> = \<bar>of_int (rne (x / ulp x)) - x / ulp x\<bar> * ulp x"
    using u by (simp add: abs_mult)
  also have "\<dots> \<le> 1 / 2 * ulp x"
    using rne_nearest [of "x / ulp x"] u by (intro mult_right_mono) simp_all
  finally show ?thesis by simp
qed

text \<open>
  Some roundings: 1/3 goes to the nearest multiple of \<open>2 ^ -54\<close>, a tie goes to the even
  neighbour, the largest finite number is \<open>2 ^ 1024 - 2 ^ 971\<close> and half a spacing beyond
  it is infinite, and the smallest spacing is \<open>2 ^ -1074\<close>.
\<close>

lemma fl_examples:
  "fl (1 / 3) = Fin (6004799503160661 / 2 ^ 54)"
  "fl (2 ^ 53 + 1) = Fin (2 ^ 53)"
  "fl (2 ^ 53 + 3) = Fin (2 ^ 53 + 4)"
  "fl (2 ^ 1024 - 2 ^ 971) = Fin (2 ^ 1024 - 2 ^ 971)"
  "fl (2 ^ 1024 - 2 ^ 970) = PosInf"
  "fl (- (2 ^ 1024)) = NegInf"
  "fl (3 / 2 ^ 1075) = Fin (2 / 2 ^ 1074)"
  "fl (1 / 2 ^ 1075) = Fin 0"
  by (simp_all add: fl_def ulp_def rne_def Let_def)

lemma jlt_irrefl: "\<not> jlt a a"
  by (cases a) simp_all

lemma inCenterZone_unfold:
  "inCenterZone cfg r y \<longleftrightarrow>
   jlt (fmul (Fin (rect_height r)) (Fin (dropZoneThreshold cfg))) (fsub (Fin y) (Fin (rect_top r))) \<and>
   jlt (fsub (Fin y) (Fin (rect_top r)))
       (fsub (Fin (rect_height r)) (fmul (Fin (rect_height r)) (Fin (dropZoneThreshold cfg))))"
  by (simp add: inCenterZone_def jgt_def Let_def)

lemma inCenterZone_exact:
  assumes "fl (y - rect_top r) = Fin (y - rect_top r)"
      and "fl (rect_height r * dropZoneThreshold cfg) = Fin (rect_height r * dropZoneThreshold cfg)"
      and "fl (rect_height r - rect_height r * dropZoneThreshold cfg)
             = Fin (rect_height r - rect_height r * dropZoneThreshold cfg)"
  shows "inCenterZone cfg r y \<longleftrightarrow>
         dropZoneThreshold cfg * rect_height r < y - rect_top r \<and>
         y - rect_top r < rect_height r - dropZoneThreshold cfg * rect_height r"
  using assms by (simp add: inCenterZone_unfold mult.commute)

lemma inCenterZone_quarter:
  assumes "dropZoneThreshold cfg = 1 / 4" and "rect_top r = 0" and "rect_height r = 100"
  shows "inCenterZone cfg r 50" and "\<not> inCenterZone cfg r 25"
  by (simp_all add: assms inCenterZone_unfold fl_def ulp_def rne_def Let_def)

text \<open>
  The zone test is the rounded one. For a rectangle with its top at the binary64 number
  nearest to 0.1 and its height the one nearest to 11.6, and the cursor at \<open>y = 3\<close>, the
  exact difference \<open>y - top\<close> is greater than a quarter of the height, but it rounds to a
  quarter of the height, so the cursor is not in the centre zone.
\<close>

lemma inCenterZone_rounds:
  assumes "dropZoneThreshold cfg = 1 / 4"
      and "rect_top r = 3602879701896397 / 2 ^ 55"
      and "rect_height r = 6530219459687219 / 2 ^ 49"
  shows "\<not> inCenterZone cfg r 3"
    and "dropZoneThreshold cfg * rect_height r < 3 - rect_top r \<and>
         3 - rect_top r < rect_height r - dropZoneThreshold cfg * rect_height r"
  by (simp_all add: assms inCenterZone_unfold fl_def ulp_def rne_def Let_def)

lemma handleSort_active:
  "isActive st \<Longrightarrow> dragged st = Some (d, dd) \<Longrightarrow> scanTargets cfg d dd x y cands = Some found \<Longrightarrow>
   handleSort cfg cands x y st = Some (st\<lparr>hoverTargetEl := found\<rparr>)"
  by (simp add: handleSort_def)

lemma handleDragStop_event:
  "isActive st \<Longrightarrow>
   snd (handleDragStop cfg el prevEl nextEl st) =
     (case hoverTargetEl st of
        Some t \<Rightarrow> DropInto (data_id (getItemData cfg el)) (data_id (getItemData cfg t)) t
      | None \<Rightarrow> Reorder (data_id (getItemData cfg el)) prevEl nextEl)"
  by (simp add: handleDragStop_def Let_def split: option.splits)

text \<open>
  C5, amended. For a candidate that is a drop target, is not the dragged element, contains
  the cursor and passes \<^verbatim>\<open>canDrop\<close>, the candidate is taken as the drop-into target exactly
  when \<^verbatim>\<open>threshold < relativeY\<close> and \<^verbatim>\<open>relativeY < height - threshold\<close>, both strict,
  where \<^verbatim>\<open>relativeY = cursorY - rect.top\<close>, \<^verbatim>\<open>threshold = height * fraction\<close> and
  \<^verbatim>\<open>height - threshold\<close> are the binary64 results; on either boundary the candidate is not
  taken. When the three results are exact, that is
  \<^verbatim>\<open>fraction * height < cursorY - rect.top < height - fraction * height\<close> over the real
  numbers. The fraction is 0.25 when the option is not given. When no candidate is taken the
  hover target is cleared and the drop is reported as a reorder; when one is taken the drop
  is reported as a drop into it.
\<close>

theorem into_zone_is_strict:
  "(isDropTarget cfg t \<and> node t \<noteq> node d \<and> \<not> outsideRect (rect t) x y \<and>
    canDrop cfg d t dd = Some True \<longrightarrow>
      dropsInto cfg d dd x y t =
        Some (jlt (fmul (Fin (rect_height (rect t))) (Fin (dropZoneThreshold cfg)))
                  (fsub (Fin y) (Fin (rect_top (rect t)))) \<and>
              jlt (fsub (Fin y) (Fin (rect_top (rect t))))
                  (fsub (Fin (rect_height (rect t)))
                        (fmul (Fin (rect_height (rect t))) (Fin (dropZoneThreshold cfg))))) \<and>
      scanTargets cfg d dd x y (t # rest) =
        (if jlt (fmul (Fin (rect_height (rect t))) (Fin (dropZoneThreshold cfg)))
                (fsub (Fin y) (Fin (rect_top (rect t)))) \<and>
            jlt (fsub (Fin y) (Fin (rect_top (rect t))))
                (fsub (Fin (rect_height (rect t)))
                      (fmul (Fin (rect_height (rect t))) (Fin (dropZoneThreshold cfg))))
         then Some (Some t) else scanTargets cfg d dd x y rest) \<and>
      (fsub (Fin y) (Fin (rect_top (rect t)))
         = fmul (Fin (rect_height (rect t))) (Fin (dropZoneThreshold cfg)) \<or>
       fsub (Fin y) (Fin (rect_top (rect t)))
         = fsub (Fin (rect_height (rect t)))
                (fmul (Fin (rect_height (rect t))) (Fin (dropZoneThreshold cfg))) \<longrightarrow>
         dropsInto cfg d dd x y t = Some False) \<and>
      (fl (y - rect_top (rect t)) = Fin (y - rect_top (rect t)) \<and>
       fl (rect_height (rect t) * dropZoneThreshold cfg)
         = Fin (rect_height (rect t) * dropZoneThreshold cfg) \<and>
       fl (rect_height (rect t) - rect_height (rect t) * dropZoneThreshold cfg)
         = Fin (rect_height (rect t) - rect_height (rect t) * dropZoneThreshold cfg) \<longrightarrow>
         dropsInto cfg d dd x y t =
           Some (dropZoneThreshold cfg * rect_height (rect t) < y - rect_top (rect t) \<and>
                 y - rect_top (rect t)
                   < rect_height (rect t) - dropZoneThreshold cfg * rect_height (rect t)))) \<and>
   (opt_dropZoneThreshold opts = None \<longrightarrow> dropZoneThreshold (makeConfig opts) = 1 / 4) \<and>
   (isActive st \<and> dragged st = Some (d, dd) \<and> scanTargets cfg d dd x y cands = Some None \<longrightarrow>
      handleSort cfg cands x y st = Some (st\<lparr>hoverTargetEl := None\<rparr>) \<and>
      snd (handleDragStop cfg el prevEl nextEl (st\<lparr>hoverTargetEl := None\<rparr>))
        = Reorder (data_id (getItemData cfg el)) prevEl nextEl) \<and>
   (isActive st \<and> dragged st = Some (d, dd) \<and> scanTargets cfg d dd x y cands = Some (Some t) \<longrightarrow>
      handleSort cfg cands x y st = Some (st\<lparr>hoverTargetEl := Some t\<rparr>) \<and>
      snd (handleDragStop cfg el prevEl nextEl (st\<lparr>hoverTargetEl := Some t\<rparr>))
        = DropInto (data_id (getItemData cfg el)) (data_id (getItemData cfg t)) t)"
proof (intro conjI impI)
  assume a: "isDropTarget cfg t \<and> node t \<noteq> node d \<and> \<not> outsideRect (rect t) x y \<and>
    canDrop cfg d t dd = Some True"
  then have z: "dropsInto cfg d dd x y t = Some (inCenterZone cfg (rect t) y)"
    by (simp add: dropsInto_def)
  show 1: "dropsInto cfg d dd x y t =
        Some (jlt (fmul (Fin (rect_height (rect t))) (Fin (dropZoneThreshold cfg)))
                  (fsub (Fin y) (Fin (rect_top (rect t)))) \<and>
              jlt (fsub (Fin y) (Fin (rect_top (rect t))))
                  (fsub (Fin (rect_height (rect t)))
                        (fmul (Fin (rect_height (rect t))) (Fin (dropZoneThreshold cfg)))))"
    by (simp only: z inCenterZone_unfold)
  show "scanTargets cfg d dd x y (t # rest) =
        (if jlt (fmul (Fin (rect_height (rect t))) (Fin (dropZoneThreshold cfg)))
                (fsub (Fin y) (Fin (rect_top (rect t)))) \<and>
            jlt (fsub (Fin y) (Fin (rect_top (rect t))))
                (fsub (Fin (rect_height (rect t)))
                      (fmul (Fin (rect_height (rect t))) (Fin (dropZoneThreshold cfg))))
         then Some (Some t) else scanTargets cfg d dd x y rest)"
    by (auto simp: 1)
  {
    assume "fsub (Fin y) (Fin (rect_top (rect t)))
         = fmul (Fin (rect_height (rect t))) (Fin (dropZoneThreshold cfg)) \<or>
       fsub (Fin y) (Fin (rect_top (rect t)))
         = fsub (Fin (rect_height (rect t)))
                (fmul (Fin (rect_height (rect t))) (Fin (dropZoneThreshold cfg)))"
    then show "dropsInto cfg d dd x y t = Some False"
      by (auto simp: 1 jlt_irrefl)
  }
  {
    assume "fl (y - rect_top (rect t)) = Fin (y - rect_top (rect t)) \<and>
       fl (rect_height (rect t) * dropZoneThreshold cfg)
         = Fin (rect_height (rect t) * dropZoneThreshold cfg) \<and>
       fl (rect_height (rect t) - rect_height (rect t) * dropZoneThreshold cfg)
         = Fin (rect_height (rect t) - rect_height (rect t) * dropZoneThreshold cfg)"
    then show "dropsInto cfg d dd x y t =
           Some (dropZoneThreshold cfg * rect_height (rect t) < y - rect_top (rect t) \<and>
                 y - rect_top (rect t)
                   < rect_height (rect t) - dropZoneThreshold cfg * rect_height (rect t))"
      by (simp add: z inCenterZone_exact)
  }
next
  assume "opt_dropZoneThreshold opts = None"
  then show "dropZoneThreshold (makeConfig opts) = 1 / 4"
    by (simp add: makeConfig_def)
next
  assume a: "isActive st \<and> dragged st = Some (d, dd) \<and> scanTargets cfg d dd x y cands = Some None"
  then show "handleSort cfg cands x y st = Some (st\<lparr>hoverTargetEl := None\<rparr>)"
    by (simp add: handleSort_active)
  from a show "snd (handleDragStop cfg el prevEl nextEl (st\<lparr>hoverTargetEl := None\<rparr>))
        = Reorder (data_id (getItemData cfg el)) prevEl nextEl"
    by (simp add: handleDragStop_event)
next
  assume a: "isActive st \<and> dragged st = Some (d, dd) \<and> scanTargets cfg d dd x y cands = Some (Some t)"
  then show "handleSort cfg cands x y st = Some (st\<lparr>hoverTargetEl := Some t\<rparr>)"
    by (simp add: handleSort_active)
  from a show "snd (handleDragStop cfg el prevEl nextEl (st\<lparr>hoverTargetEl := Some t\<rparr>))
        = DropInto (data_id (getItemData cfg el)) (data_id (getItemData cfg t)) t"
    by (simp add: handleDragStop_event)
qed

text \<open>
  C5, as stated, fails on the boundary of the zone. A target of height 100 with its top at
  0, the default threshold and the cursor at \<open>y = 25\<close>: the stated condition
  \<^verbatim>\<open>threshold * height <= relativeY <= (1 - threshold) * height\<close> holds, over the real
  numbers and in binary64 arithmetic alike (every number involved is exact), yet the
  candidate is not taken and the hover target stays empty.
\<close>

theorem into_zone_boundary_counterexample:
  "isDropTarget (makeConfig optsDefault) (taskEl 2 ''B'') \<and>
   node (taskEl 2 ''B'') \<noteq> node (taskEl 1 ''A'') \<and>
   \<not> outsideRect (rect (taskEl 2 ''B'')) 10 25 \<and>
   canDrop (makeConfig optsDefault) (taskEl 1 ''A'') (taskEl 2 ''B'')
     (getItemData_task (taskEl 1 ''A'')) = Some True \<and>
   dropZoneThreshold (makeConfig optsDefault) * rect_height (rect (taskEl 2 ''B''))
     \<le> 25 - rect_top (rect (taskEl 2 ''B'')) \<and>
   25 - rect_top (rect (taskEl 2 ''B''))
     \<le> (1 - dropZoneThreshold (makeConfig optsDefault)) * rect_height (rect (taskEl 2 ''B'')) \<and>
   fsub (Fin 25) (Fin (rect_top (rect (taskEl 2 ''B'')))) = Fin 25 \<and>
   fmul (Fin (dropZoneThreshold (makeConfig optsDefault))) (Fin (rect_height (rect (taskEl 2 ''B''))))
     = Fin 25 \<and>
   fmul (fsub (Fin 1) (Fin (dropZoneThreshold (makeConfig optsDefault))))
        (Fin (rect_height (rect (taskEl 2 ''B'')))) = Fin 75 \<and>
   dropsInto (makeConfig optsDefault) (taskEl 1 ''A'') (getItemData_task (taskEl 1 ''A'')) 10 25
     (taskEl 2 ''B'') = Some False \<and>
   handleSort (makeConfig optsDefault) [taskEl 2 ''B''] 10 25
     (handleDragStart (makeConfig optsDefault) (taskEl 1 ''A'') idle)
     = Some \<lparr>isActive = True, hoverTargetEl = None,
             dragged = Some (taskEl 1 ''A'', getItemData_task (taskEl 1 ''A''))\<rparr>"
proof -
  let ?cfg = "makeConfig optsDefault"
  have q: "dropZoneThreshold ?cfg = 1 / 4" by (simp add: makeConfig_def)
  have z: "\<not> inCenterZone ?cfg (rect (taskEl 2 ''B'')) 25"
    by (rule inCenterZone_quarter(2) [OF q]) simp_all
  have f: "fsub (Fin 25) (Fin 0) = Fin 25 \<and> fmul (Fin (1 / 4)) (Fin 100) = Fin 25 \<and>
           fmul (fsub (Fin 1) (Fin (1 / 4))) (Fin 100) = Fin 75"
    by (simp add: fl_def ulp_def rne_def Let_def)
  from z f show ?thesis
    by (simp add: makeConfig_def isDropTarget_task_def attr_def outsideRect_def dropsInto_def
          handleSort_def handleDragStart_def)
qed

theorem into_zone_is_strict_witness:
  "dropsInto (makeConfig optsDefault) (taskEl 1 ''A'') (getItemData_task (taskEl 1 ''A'')) 10 50
     (taskEl 2 ''B'') = Some True \<and>
   dropsInto (makeConfig optsDefault) (taskEl 1 ''A'') (getItemData_task (taskEl 1 ''A'')) 10 25
     (taskEl 2 ''B'') = Some False \<and>
   dropZoneThreshold (makeConfig optsDefault) = 1 / 4 \<and>
   snd (handleDragStop (makeConfig optsDefault) (taskEl 1 ''A'') None (Some (taskEl 2 ''B''))
          ((handleDragStart (makeConfig optsDefault) (taskEl 1 ''A'') idle)\<lparr>hoverTargetEl := None\<rparr>))
     = Reorder (Str ''A'') None (Some (taskEl 2 ''B'')) \<and>
   snd (handleDragStop (makeConfig optsDefault) (taskEl 1 ''A'') None (Some (taskEl 2 ''B''))
          ((handleDragStart (makeConfig optsDefault) (taskEl 1 ''A'') idle)
             \<lparr>hoverTargetEl := Some (taskEl 2 ''B'')\<rparr>))
     = DropInto (Str ''A'') (Str ''B'') (taskEl 2 ''B'')"
proof -
  let ?cfg = "makeConfig optsDefault"
  let ?d = "taskEl 1 ''A''"
  let ?t = "taskEl 2 ''B''"
  let ?dd = "getItemData_task ?d"
  let ?st = "handleDragStart ?cfg ?d idle"
  have q: "dropZoneThreshold ?cfg = 1 / 4" by (simp add: makeConfig_def)
  have h1: "isDropTarget ?cfg ?t \<and> node ?t \<noteq> node ?d \<and> \<not> outsideRect (rect ?t) 10 50 \<and>
            canDrop ?cfg ?d ?t ?dd = Some True"
    by (simp add: makeConfig_def isDropTarget_task_def attr_def outsideRect_def)
  have h1': "isDropTarget ?cfg ?t \<and> node ?t \<noteq> node ?d \<and> \<not> outsideRect (rect ?t) 10 25 \<and>
            canDrop ?cfg ?d ?t ?dd = Some True"
    by (simp add: makeConfig_def isDropTarget_task_def attr_def outsideRect_def)
  have e: "fl (50 - rect_top (rect ?t)) = Fin (50 - rect_top (rect ?t)) \<and>
       fl (rect_height (rect ?t) * dropZoneThreshold ?cfg)
         = Fin (rect_height (rect ?t) * dropZoneThreshold ?cfg) \<and>
       fl (rect_height (rect ?t) - rect_height (rect ?t) * dropZoneThreshold ?cfg)
         = Fin (rect_height (rect ?t) - rect_height (rect ?t) * dropZoneThreshold ?cfg)"
    by (simp add: q fl_def ulp_def rne_def Let_def)
  have z: "dropZoneThreshold ?cfg * rect_height (rect ?t) < 50 - rect_top (rect ?t) \<and>
           50 - rect_top (rect ?t) < rect_height (rect ?t) - dropZoneThreshold ?cfg * rect_height (rect ?t)"
    by (simp add: q)
  have b: "fsub (Fin 25) (Fin (rect_top (rect ?t)))
             = fmul (Fin (rect_height (rect ?t))) (Fin (dropZoneThreshold ?cfg)) \<or>
           fsub (Fin 25) (Fin (rect_top (rect ?t)))
             = fsub (Fin (rect_height (rect ?t)))
                    (fmul (Fin (rect_height (rect ?t))) (Fin (dropZoneThreshold ?cfg)))"
    by (simp add: q fl_def ulp_def rne_def Let_def)
  have h2: "opt_dropZoneThreshold optsDefault = None" by simp
  have act: "isActive ?st \<and> dragged ?st = Some (?d, ?dd)"
    by (simp add: handleDragStart_def makeConfig_def)
  have i50: "inCenterZone ?cfg (rect ?t) 50"
    by (rule inCenterZone_quarter(1) [OF q]) simp_all
  have i25: "\<not> inCenterZone ?cfg (rect ?t) 25"
    by (rule inCenterZone_quarter(2) [OF q]) simp_all
  from i25 have h3: "scanTargets ?cfg ?d ?dd 10 25 [?t] = Some None"
    by (simp add: makeConfig_def isDropTarget_task_def attr_def outsideRect_def dropsInto_def)
  from i50 have h4: "scanTargets ?cfg ?d ?dd 10 50 [?t] = Some (Some ?t)"
    by (simp add: makeConfig_def isDropTarget_task_def attr_def outsideRect_def dropsInto_def)
  have g: "data_id (getItemData ?cfg ?d) = Str ''A'' \<and> data_id (getItemData ?cfg ?t) = Str ''B''"
    by (simp add: makeConfig_def getItemData_task_def attr_def)
  note c1 = into_zone_is_strict [where cfg = ?cfg and t = ?t and d = ?d and dd = ?dd and x = 10
      and y = 50, THEN conjunct1, THEN mp, OF h1]
  from c1 [THEN conjunct2, THEN conjunct2, THEN conjunct2, THEN mp, OF e]
  have "dropsInto ?cfg ?d ?dd 10 50 ?t =
        Some (dropZoneThreshold ?cfg * rect_height (rect ?t) < 50 - rect_top (rect ?t) \<and>
              50 - rect_top (rect ?t) < rect_height (rect ?t) - dropZoneThreshold ?cfg * rect_height (rect ?t))" .
  with z have 1: "dropsInto ?cfg ?d ?dd 10 50 ?t = Some True" by (simp only: simp_thms)
  note c1' = into_zone_is_strict [where cfg = ?cfg and t = ?t and d = ?d and dd = ?dd and x = 10
      and y = 25, THEN conjunct1, THEN mp, OF h1']
  from c1' [THEN conjunct2, THEN conjunct2, THEN conjunct1, THEN mp, OF b]
  have nb: "dropsInto ?cfg ?d ?dd 10 25 ?t = Some False" .
  from h2 into_zone_is_strict [where opts = optsDefault]
  have 2: "dropZoneThreshold ?cfg = 1 / 4" by blast
  from act h3 into_zone_is_strict [where cfg = ?cfg and d = ?d and dd = ?dd and x = 10 and y = 25
      and cands = "[?t]" and st = ?st and el = ?d and prevEl = None and nextEl = "Some ?t"]
  have "snd (handleDragStop ?cfg ?d None (Some ?t) (?st\<lparr>hoverTargetEl := None\<rparr>))
     = Reorder (data_id (getItemData ?cfg ?d)) None (Some ?t)" by blast
  with g have 3: "snd (handleDragStop ?cfg ?d None (Some ?t) (?st\<lparr>hoverTargetEl := None\<rparr>))
     = Reorder (Str ''A'') None (Some ?t)" by (simp only:)
  from act h4 into_zone_is_strict [where cfg = ?cfg and d = ?d and dd = ?dd and x = 10 and y = 50
      and cands = "[?t]" and st = ?st and el = ?d and prevEl = None and nextEl = "Some ?t"
      and t = ?t]
  have "snd (handleDragStop ?cfg ?d None (Some ?t) (?st\<lparr>hoverTargetEl := Some ?t\<rparr>))
     = DropInto (data_id (getItemData ?cfg ?d)) (data_id (getItemData ?cfg ?t)) ?t" by blast
  with g have 4: "snd (handleDragStop ?cfg ?d None (Some ?t) (?st\<lparr>hoverTargetEl := Some ?t\<rparr>))
     = DropInto (Str ''A'') (Str ''B'') ?t" by (simp only:)
  from 1 nb 2 3 4 show ?thesis by blast
qed



section \<open>Cycle prevention\<close>




lemma canDrop_side_other:
  "data_type dd \<noteq> Str ''folder'' \<Longrightarrow> canDrop_side isDescendantOf d t dd = Some True"
  by (simp add: canDrop_side_def Let_def)



























section \<open>A move of a node that does not exist\<close>

lemma find_None_iff': "find P xs = None \<longleftrightarrow> (\<forall>x \<in> set xs. \<not> P x)"
  by (induction xs) auto

lemma buildUpdatesArray_None:
  "(\<And>t. t \<in> set tasks \<Longrightarrow> Str (task_id t) \<noteq> taskId) \<Longrightarrow>
   buildUpdatesArray tasks taskId target prevEl nextEl = None"
proof -
  assume "\<And>t. t \<in> set tasks \<Longrightarrow> Str (task_id t) \<noteq> taskId"
  then have "find (\<lambda>t. Str (task_id t) = taskId) tasks = None"
    by (simp add: find_None_iff')
  then show ?thesis by (simp add: buildUpdatesArray_def Let_def)
qed

lemma buildUpdatesArray_side_None:
  "(\<And>k i. i \<in> set (collection d k) \<Longrightarrow> Str (item_id i) \<noteq> ident) \<Longrightarrow>
   buildUpdatesArray_side d ty ident target prevEl nextEl = None"
proof -
  assume a: "\<And>k i. i \<in> set (collection d k) \<Longrightarrow> Str (item_id i) \<noteq> ident"
  have "find (\<lambda>i. Str (item_id i) = ident) (collection d k) = None" for k
    using a [of _ k] by (simp add: find_None_iff')
  then show ?thesis
    by (simp add: buildUpdatesArray_side_def Let_def split: option.splits)
qed

text \<open>
  C8. When no node of the collection has the moved id, the planner refuses: it returns
  \<^verbatim>\<open>null\<close> (the code's form of the invalid-move failure) and emits no updates. The entry
  points then leave the node collection as it is, issue no persistence call and show no
  toast (the side list re-renders the unchanged list; the task list does not even render).
\<close>

theorem missing_node_no_updates:
  "((\<forall>t \<in> set (currentTasks st). Str (task_id t) \<noteq> taskId) \<longrightarrow>
      buildUpdatesArray (currentTasks st) taskId target prevEl nextEl = None \<and>
      currentTasks (updateTaskPosition repositoryAvailable rejects taskId target prevEl nextEl st)
        = currentTasks st \<and>
      persistCalls (updateTaskPosition repositoryAvailable rejects taskId target prevEl nextEl st)
        = persistCalls st \<and>
      renderCount (updateTaskPosition repositoryAvailable rejects taskId target prevEl nextEl st)
        = renderCount st \<and>
      toasts (updateTaskPosition repositoryAvailable rejects taskId target prevEl nextEl st)
        = toasts st) \<and>
   ((\<forall>k. \<forall>i \<in> set (collection (sdata sst) k). Str (item_id i) \<noteq> ident) \<longrightarrow>
      buildUpdatesArray_side (sdata sst) ty ident target prevEl nextEl = None \<and>
      sdata (updateItemPosition available rejects' ty ident target prevEl nextEl sst) = sdata sst \<and>
      s_persistCalls (updateItemPosition available rejects' ty ident target prevEl nextEl sst)
        = s_persistCalls sst \<and>
      s_toasts (updateItemPosition available rejects' ty ident target prevEl nextEl sst)
        = s_toasts sst)"
proof (intro conjI impI)
  assume "\<forall>t \<in> set (currentTasks st). Str (task_id t) \<noteq> taskId"
  then have n: "buildUpdatesArray (currentTasks st) taskId target prevEl nextEl = None"
    by (intro buildUpdatesArray_None) blast
  then show "buildUpdatesArray (currentTasks st) taskId target prevEl nextEl = None" .
  from n show "currentTasks (updateTaskPosition repositoryAvailable rejects taskId target prevEl nextEl st)
        = currentTasks st"
    by (simp add: updateTaskPosition_def)
  from n show "persistCalls (updateTaskPosition repositoryAvailable rejects taskId target prevEl nextEl st)
        = persistCalls st"
    by (simp add: updateTaskPosition_def)
  from n show "renderCount (updateTaskPosition repositoryAvailable rejects taskId target prevEl nextEl st)
        = renderCount st"
    by (simp add: updateTaskPosition_def)
  from n show "toasts (updateTaskPosition repositoryAvailable rejects taskId target prevEl nextEl st)
        = toasts st"
    by (simp add: updateTaskPosition_def)
next
  assume "\<forall>k. \<forall>i \<in> set (collection (sdata sst) k). Str (item_id i) \<noteq> ident"
  then have n: "buildUpdatesArray_side (sdata sst) ty ident target prevEl nextEl = None"
    by (intro buildUpdatesArray_side_None) blast
  then show "buildUpdatesArray_side (sdata sst) ty ident target prevEl nextEl = None" .
  from n show "sdata (updateItemPosition available rejects' ty ident target prevEl nextEl sst) = sdata sst"
    by (simp add: updateItemPosition_def)
  from n show "s_persistCalls (updateItemPosition available rejects' ty ident target prevEl nextEl sst)
        = s_persistCalls sst"
    by (simp add: updateItemPosition_def)
  from n show "s_toasts (updateItemPosition available rejects' ty ident target prevEl nextEl sst)
        = s_toasts sst"
    by (simp add: updateItemPosition_def)
qed

theorem missing_node_no_updates_witness:
  "buildUpdatesArray tasksABC (Str ''D'') (Str ''P'') None None = None \<and>
   currentTasks (updateTaskPosition True (\<lambda>u. False) (Str ''D'') (Str ''P'') None None tstateABC)
     = tasksABC \<and>
   persistCalls (updateTaskPosition True (\<lambda>u. False) (Str ''D'') (Str ''P'') None None tstateABC)
     = [] \<and>
   buildUpdatesArray_side storeFL (Str ''note'') (Str ''Q'') Null None None = None \<and>
   sdata (updateItemPosition (\<lambda>k. True) (\<lambda>u. False) (Str ''note'') (Str ''Q'') Null None None sstateFL)
     = storeFL \<and>
   s_persistCalls
     (updateItemPosition (\<lambda>k. True) (\<lambda>u. False) (Str ''note'') (Str ''Q'') Null None None sstateFL)
     = []"
proof -
  have h1: "\<forall>t \<in> set (currentTasks tstateABC). Str (task_id t) \<noteq> Str ''D''"
    by simp
  have h2: "\<forall>k. \<forall>i \<in> set (collection (sdata sstateFL) k). Str (item_id i) \<noteq> Str ''Q''"
    by (auto simp: collection_def split: kind.splits)
  from h1 missing_node_no_updates [where st = tstateABC and taskId = "Str ''D''" and target = "Str ''P''"
      and prevEl = None and nextEl = None and repositoryAvailable = True and rejects = "\<lambda>u. False"]
  have 1: "buildUpdatesArray (currentTasks tstateABC) (Str ''D'') (Str ''P'') None None = None \<and>
      currentTasks (updateTaskPosition True (\<lambda>u. False) (Str ''D'') (Str ''P'') None None tstateABC)
        = currentTasks tstateABC \<and>
      persistCalls (updateTaskPosition True (\<lambda>u. False) (Str ''D'') (Str ''P'') None None tstateABC)
        = persistCalls tstateABC"
    by blast
  from h2 missing_node_no_updates [where sst = sstateFL and ident = "Str ''Q''" and target = Null
      and ty = "Str ''note''" and prevEl = None and nextEl = None and available = "\<lambda>k. True"
      and rejects' = "\<lambda>u. False"]
  have 2: "buildUpdatesArray_side (sdata sstateFL) (Str ''note'') (Str ''Q'') Null None None = None \<and>
      sdata (updateItemPosition (\<lambda>k. True) (\<lambda>u. False) (Str ''note'') (Str ''Q'') Null None None sstateFL)
        = sdata sstateFL \<and>
      s_persistCalls
        (updateItemPosition (\<lambda>k. True) (\<lambda>u. False) (Str ''note'') (Str ''Q'') Null None None sstateFL)
        = s_persistCalls sstateFL"
    by blast
  from 1 2 show ?thesis by simp
qed

section \<open>Replaying a plan on the updated collection\<close>

lemma update_first_map:
  "distinct (map key xs) \<Longrightarrow>
   update_first (\<lambda>x. key x = k) f xs = map (\<lambda>x. if key x = k then f x else x) xs"
proof (induction xs)
  case Nil
  show ?case by simp
next
  case (Cons x xs)
  show ?case
  proof (cases "key x = k")
    case True
    from Cons.prems have "key x \<notin> key ` set xs" by simp
    with True have "\<And>y. y \<in> set xs \<Longrightarrow> key y \<noteq> k" by blast
    then have "map (\<lambda>x. if key x = k then f x else x) xs = xs"
      by (simp add: map_idI)
    with True show ?thesis by simp
  next
    case False
    with Cons show ?thesis by simp
  qed
qed

lemma findIndex_nth:
  "distinct (map key xs) \<Longrightarrow> i < length xs \<Longrightarrow> findIndex (\<lambda>x. key x = key (xs ! i)) xs = Some i"
proof (induction xs arbitrary: i)
  case Nil
  then show ?case by simp
next
  case (Cons x xs)
  show ?case
  proof (cases i)
    case 0
    then show ?thesis by simp
  next
    case (Suc j)
    with Cons.prems have j: "j < length xs" by simp
    with Cons.prems have "key (xs ! j) \<noteq> key x"
      by (metis distinct.simps(2) list.simps(9) length_map nth_map nth_mem)
    with Cons.IH [OF _ j] Cons.prems Suc show ?thesis by auto
  qed
qed

lemma findIndex_cong:
  "(\<And>x. x \<in> set xs \<Longrightarrow> P x = Q x) \<Longrightarrow> findIndex P xs = findIndex Q xs"
  by (induction xs) auto

lemma findIndex_map: "findIndex P (map g xs) = findIndex (P \<circ> g) xs"
  by (induction xs) auto

lemma insertIndex_map_same:
  "(\<And>x. x \<in> set xs \<Longrightarrow> ident (g x) = ident x) \<Longrightarrow>
   insertIndex ident (map g xs) prevId hasNext = insertIndex ident xs prevId hasNext"
proof -
  assume a: "\<And>x. x \<in> set xs \<Longrightarrow> ident (g x) = ident x"
  have "findIndex (\<lambda>t. Str (ident t) = pid) (map g xs) = findIndex (\<lambda>t. Str (ident t) = pid) xs" for pid
    unfolding findIndex_map by (rule findIndex_cong) (simp add: a)
  then show ?thesis by (simp add: insertIndex_def split: option.splits)
qed

lemma insertIndex_replay:
  assumes d: "distinct (map ident P)" and k: "k < length P"
  shows "insertIndex ident (take k P @ drop (Suc k) P)
           (if k = 0 then None else Some (Str (ident (P ! (k - 1))))) (Suc k < length P) = k"
proof (cases k)
  case 0
  with k show ?thesis by (auto simp: insertIndex_def)
next
  case (Suc j)
  let ?sibs = "take k P @ drop (Suc k) P"
  have ds: "distinct (map ident ?sibs)"
  proof -
    have "map ident P = map ident (take k P) @ ident (P ! k) # map ident (drop (Suc k) P)"
      using k by (metis id_take_nth_drop list.simps(9) map_append)
    with d show ?thesis by (metis distinct_append distinct.simps(2) map_append disjoint_insert(1)
          list.simps(15) Int_commute)
  qed
  have j: "j < length ?sibs" using Suc k by simp
  have e: "?sibs ! j = P ! j" using Suc k by (simp add: nth_append)
  from findIndex_nth [OF ds j] e
  have "findIndex (\<lambda>x. ident x = ident (P ! j)) ?sibs = Some j" by simp
  then have "findIndex (\<lambda>t. Str (ident t) = Str (ident (P ! j))) ?sibs = Some j" by simp
  with Suc show ?thesis by (simp add: insertIndex_def)
qed

lemma mset_filter_member:
  assumes "distinct xs" "distinct P" "set P \<subseteq> set xs"
  shows "mset (filter (\<lambda>x. x \<in> set P) xs) = mset P"
proof -
  have "distinct (filter (\<lambda>x. x \<in> set P) xs)" using assms(1) by simp
  moreover have "set (filter (\<lambda>x. x \<in> set P) xs) = set P" using assms(3) by auto
  ultimately show ?thesis using assms(2) set_eq_iff_mset_eq_distinct by blast
qed

lemma resort_after_apply:
  fixes ckey :: "'a \<Rightarrow> jsid" and oi :: "'a \<Rightarrow> int option" and g :: "'a \<Rightarrow> 'a"
  assumes dist: "distinct xs"
    and sub: "set P \<subseteq> set xs" and dP: "distinct P"
    and members: "\<And>x. x \<in> set xs \<Longrightarrow> ckey x = target \<Longrightarrow> x \<in> set P"
    and gP: "\<And>i. i < length P \<Longrightarrow>
               ckey (g (P ! i)) = target \<and> or_zero (oi (g (P ! i))) = int i * 1000"
    and gother: "\<And>x. x \<in> set xs \<Longrightarrow> x \<notin> set P \<Longrightarrow> g x = x"
  shows "sortByOrderIndex oi (filter (\<lambda>x. ckey x = target) (map g xs)) = map g P"
proof -
  have iff: "ckey (g x) = target \<longleftrightarrow> x \<in> set P" if x: "x \<in> set xs" for x
  proof
    assume c: "ckey (g x) = target"
    show "x \<in> set P"
    proof (rule ccontr)
      assume n: "x \<notin> set P"
      with gother [OF x] c have "ckey x = target" by simp
      from members [OF x this] n show False by contradiction
    qed
  next
    assume "x \<in> set P"
    then obtain i where "i < length P" "P ! i = x" by (auto simp: in_set_conv_nth)
    with gP [of i] show "ckey (g x) = target" by simp
  qed
  have "filter (\<lambda>x. ckey x = target) (map g xs) = map g (filter (\<lambda>x. ckey (g x) = target) xs)"
    by (simp add: filter_map comp_def)
  also have "filter (\<lambda>x. ckey (g x) = target) xs = filter (\<lambda>x. x \<in> set P) xs"
    by (rule filter_cong [OF refl]) (simp add: iff)
  finally have f: "filter (\<lambda>x. ckey x = target) (map g xs) = map g (filter (\<lambda>x. x \<in> set P) xs)" .
  have m: "mset (map g (filter (\<lambda>x. x \<in> set P) xs)) = mset (map g P)"
    using mset_filter_member [OF dist dP sub] by (metis mset_map)
  have keys: "map (\<lambda>x. or_zero (oi x)) (map g P) = map (\<lambda>i. int i * 1000) [0..<length P]"
    by (rule nth_equalityI) (simp_all add: gP)
  have s: "sorted (map (\<lambda>x. or_zero (oi x)) (map g P))"
    unfolding keys by (simp add: sorted_iff_nth_mono)
  have "distinct (map (\<lambda>x. or_zero (oi x)) (map g P))"
    unfolding keys by (simp add: distinct_map inj_on_def)
  then have "inj_on (\<lambda>x. or_zero (oi x)) (set (map g P))"
    using distinct_map by blast
  moreover have "set (map g (filter (\<lambda>x. x \<in> set P) xs)) = set (map g P)"
    using m by (metis set_mset_mset)
  ultimately have inj: "inj_on (\<lambda>x. or_zero (oi x)) (set (map g (filter (\<lambda>x. x \<in> set P) xs)))"
    by simp
  have "sort_key (\<lambda>x. or_zero (oi x)) (map g (filter (\<lambda>x. x \<in> set P) xs)) = map g P"
    using m inj s by (rule sort_key_inj_key_eq)
  with f show ?thesis by (simp add: sortByOrderIndex_def)
qed

lemma task_id_taskStep [simp]: "task_id (taskStep u t) = task_id t"
  by (simp add: taskStep_def)

lemma task_id_taskSteps [simp]: "task_id (foldl (\<lambda>t u. taskStep u t) t ups) = task_id t"
  by (induction ups arbitrary: t) simp_all

lemma applyUpdate_map:
  "distinct (map task_id xs) \<Longrightarrow> applyUpdate u xs = map (taskStep u) xs"
  unfolding applyUpdate_def taskStep_def by (rule update_first_map)

lemma applyUpdatesLocally_map:
  "distinct (map task_id xs) \<Longrightarrow>
   applyUpdatesLocally ups xs = map (\<lambda>t. foldl (\<lambda>t u. taskStep u t) t ups) xs"
proof (induction ups arbitrary: xs)
  case Nil
  show ?case by (simp add: applyUpdatesLocally_def)
next
  case (Cons u ups)
  have d: "distinct (map task_id (map (taskStep u) xs))"
    using Cons.prems by (simp add: comp_def)
  have "applyUpdatesLocally (u # ups) xs = applyUpdatesLocally ups (applyUpdate u xs)"
    by (simp add: applyUpdatesLocally_def)
  also have "\<dots> = applyUpdatesLocally ups (map (taskStep u) xs)"
    using Cons.prems by (simp add: applyUpdate_map)
  also have "\<dots> = map (\<lambda>t. foldl (\<lambda>t u. taskStep u t) t ups) (map (taskStep u) xs)"
    using d by (rule Cons.IH)
  finally show ?case by (simp add: comp_def)
qed

lemma taskSteps_other:
  "task_id t \<notin> upd_id ` set ups \<Longrightarrow> foldl (\<lambda>t u. taskStep u t) t ups = t"
  by (induction ups arbitrary: t) (simp_all add: taskStep_def)

lemma taskSteps_hit:
  "distinct (map upd_id ups) \<Longrightarrow> i < length ups \<Longrightarrow> task_id t = upd_id (ups ! i) \<Longrightarrow>
   foldl (\<lambda>t u. taskStep u t) t ups
     = t\<lparr>orderIndex := Some (upd_orderIndex (ups ! i)), parentTaskId := upd_parentTaskId (ups ! i)\<rparr>"
proof (induction ups arbitrary: t i)
  case Nil
  then show ?case by simp
next
  case (Cons u ups)
  show ?case
  proof (cases i)
    case 0
    with Cons.prems have hit: "task_id t = upd_id u" by simp
    from Cons.prems have "upd_id u \<notin> upd_id ` set ups" by simp
    with hit have "task_id (taskStep u t) \<notin> upd_id ` set ups" by simp
    from taskSteps_other [OF this] 0 hit show ?thesis by (simp add: taskStep_def)
  next
    case (Suc j)
    with Cons.prems have j: "j < length ups" and e: "task_id t = upd_id (ups ! j)" by simp_all
    from Cons.prems j have "upd_id (ups ! j) \<noteq> upd_id u"
      by (metis distinct.simps(2) list.simps(9) length_map nth_map nth_mem)
    with e have miss: "taskStep u t = t" by (simp add: taskStep_def)
    from Cons.prems have "distinct (map upd_id ups)" by simp
    from Cons.IH [OF this j e] miss Suc show ?thesis by simp
  qed
qed

lemma find_Some_mem: "find P xs = Some x \<Longrightarrow> x \<in> set xs \<and> P x"
  by (induction xs) (auto split: if_splits)

lemma find_map_same:
  "(\<And>x. x \<in> set xs \<Longrightarrow> P (g x) = P x) \<Longrightarrow> find P (map g xs) = map_option g (find P xs)"
  by (induction xs) auto

lemma or_null_idem [simp]: "or_null (or_null x) = or_null x"
  by (cases x) auto

lemma renumber_cong:
  "map task_id xs = map task_id ys \<Longrightarrow> renumber target xs = renumber target ys"
proof (rule nth_equalityI)
  assume e: "map task_id xs = map task_id ys"
  then have l: "length xs = length ys" by (rule map_eq_imp_length_eq)
  then show "length (renumber target xs) = length (renumber target ys)"
    by (simp add: length_renumber)
  fix i assume "i < length (renumber target xs)"
  then have i: "i < length xs" by (simp add: length_renumber)
  from e i l have "task_id (xs ! i) = task_id (ys ! i)" by (metis nth_map)
  with i l show "renumber target xs ! i = renumber target ys ! i"
    by (simp add: nth_renumber)
qed

lemma splice_filter_out:
  assumes "\<And>x. x \<in> set sibs \<Longrightarrow> Q x" and "\<not> Q m"
  shows "filter Q (take k sibs @ m # drop k sibs) = sibs"
proof -
  have "filter Q (take k sibs) = take k sibs" "filter Q (drop k sibs) = drop k sibs"
    using assms(1) by (auto simp: filter_id_conv dest: in_set_takeD in_set_dropD)
  with assms(2) show ?thesis by simp
qed

lemma task_replay:
  fixes tasks :: "task list" and target taskId :: jsid
  assumes dist: "distinct (map task_id tasks)"
    and norm: "or_null target = target"
    and m: "find (\<lambda>t. Str (task_id t) = taskId) tasks = Some m"
    and sibs: "sibs = sortByOrderIndex orderIndex
                 (filter (\<lambda>t. Str (task_id t) \<noteq> taskId)
                    (filter (\<lambda>t. or_null (parentTaskId t) = target) tasks))"
    and k: "k \<le> length sibs"
    and P: "P = take k sibs @ m # drop k sibs"
    and g: "g = (\<lambda>t. foldl (\<lambda>t u. taskStep u t) t (renumber target P))"
  shows "distinct (map task_id P)"
    and "\<And>i. i < length P \<Longrightarrow>
           g (P ! i) = (P ! i)\<lparr>orderIndex := Some (int i * 1000), parentTaskId := target\<rparr>"
    and "sortByOrderIndex orderIndex (filter (\<lambda>t. or_null (parentTaskId t) = target) (map g tasks))
           = map g P"
    and "sortByOrderIndex orderIndex
           (filter (\<lambda>t. Str (task_id t) \<noteq> taskId)
              (filter (\<lambda>t. or_null (parentTaskId t) = target) (map g tasks)))
           = map g sibs"
    and "find (\<lambda>t. Str (task_id t) = taskId) (map g tasks) = Some (g m)"
proof -
  from find_Some_mem [OF m] have mt: "m \<in> set tasks" and mid: "Str (task_id m) = taskId" by auto
  have ss: "set sibs = {t \<in> set tasks. or_null (parentTaskId t) = target \<and> Str (task_id t) \<noteq> taskId}"
    unfolding sibs by (auto simp: sortByOrderIndex_def)
  from dist have dt: "distinct tasks" and inj: "inj_on task_id (set tasks)"
    by (simp_all add: distinct_map)
  have ds: "distinct sibs" unfolding sibs using dt by (simp add: sortByOrderIndex_def)
  from ss mid have mns: "m \<notin> set sibs" by auto
  have setP: "set P = insert m (set sibs)"
    unfolding P using k by (auto dest: in_set_takeD in_set_dropD)
        (metis append_take_drop_id set_append Un_iff)
  have dP: "distinct P"
  proof -
    have "distinct (take k sibs @ drop k sibs)" using ds by simp
    then have "distinct (take k sibs)" "distinct (drop k sibs)"
      "set (take k sibs) \<inter> set (drop k sibs) = {}" by (simp_all only: distinct_append)
    moreover have "m \<notin> set (take k sibs)" "m \<notin> set (drop k sibs)"
      using mns by (auto dest: in_set_takeD in_set_dropD)
    ultimately show ?thesis unfolding P by auto
  qed
  from setP ss mt have sub: "set P \<subseteq> set tasks" by auto
  from inj sub have "inj_on task_id (set P)" by (rule inj_on_subset)
  with dP show dPi: "distinct (map task_id P)" by (simp add: distinct_map)
  have du: "distinct (map upd_id (renumber target P))"
    using dPi by (simp add: ids_renumber)
  show gP: "g (P ! i) = (P ! i)\<lparr>orderIndex := Some (int i * 1000), parentTaskId := target\<rparr>"
    if i: "i < length P" for i
  proof -
    from i have i': "i < length (renumber target P)" by (simp add: length_renumber)
    from i have "task_id (P ! i) = upd_id (renumber target P ! i)" by (simp add: nth_renumber)
    from taskSteps_hit [OF du i' this] i show ?thesis by (simp add: g nth_renumber)
  qed
  have gother: "g x = x" if "x \<in> set tasks" "x \<notin> set P" for x
  proof -
    have "task_id x \<notin> task_id ` set P"
    proof
      assume "task_id x \<in> task_id ` set P"
      then obtain y where y: "y \<in> set P" "task_id x = task_id y" by auto
      with sub that(1) inj have "x = y" by (auto dest: inj_onD)
      with y that(2) show False by simp
    qed
    then have "task_id x \<notin> upd_id ` set (renumber target P)"
      by (metis ids_renumber list.set_map)
    from taskSteps_other [OF this] show ?thesis by (simp add: g)
  qed
  have members: "x \<in> set P" if "x \<in> set tasks" "or_null (parentTaskId x) = target" for x
  proof (cases "Str (task_id x) = taskId")
    case True
    with mid have "Str (task_id x) = Str (task_id m)" by (simp only:)
    then have "task_id x = task_id m" by simp
    with inj that(1) mt have "x = m" by (auto dest: inj_onD)
    with setP show ?thesis by simp
  next
    case False
    with that ss setP show ?thesis by simp
  qed
  have gid: "task_id (g x) = task_id x" for x by (simp add: g)
  show L: "sortByOrderIndex orderIndex (filter (\<lambda>t. or_null (parentTaskId t) = target) (map g tasks))
           = map g P"
  proof (rule resort_after_apply [where ckey = "\<lambda>t. or_null (parentTaskId t)", OF dt sub dP])
    fix x assume "x \<in> set tasks" "or_null (parentTaskId x) = target"
    then show "x \<in> set P" by (rule members)
  next
    fix i assume "i < length P"
    from gP [OF this] norm
    show "or_null (parentTaskId (g (P ! i))) = target \<and> or_zero (orderIndex (g (P ! i))) = int i * 1000"
      by simp
  next
    fix x assume "x \<in> set tasks" "x \<notin> set P"
    then show "g x = x" by (rule gother)
  qed
  have "sortByOrderIndex orderIndex
           (filter (\<lambda>t. Str (task_id t) \<noteq> taskId)
              (filter (\<lambda>t. or_null (parentTaskId t) = target) (map g tasks)))
        = filter (\<lambda>t. Str (task_id t) \<noteq> taskId) (map g P)"
    using L sortByOrderIndex_filter
      [of "\<lambda>t. Str (task_id t) \<noteq> taskId" orderIndex
          "filter (\<lambda>t. or_null (parentTaskId t) = target) (map g tasks)"]
    by (simp only:)
  also have "\<dots> = map g (filter (\<lambda>t. Str (task_id t) \<noteq> taskId) P)"
    by (simp add: filter_map comp_def gid)
  also have "filter (\<lambda>t. Str (task_id t) \<noteq> taskId) P = sibs"
    unfolding P by (rule splice_filter_out) (use ss mid in auto)
  finally show "sortByOrderIndex orderIndex
           (filter (\<lambda>t. Str (task_id t) \<noteq> taskId)
              (filter (\<lambda>t. or_null (parentTaskId t) = target) (map g tasks)))
           = map g sibs" .
  have "find (\<lambda>t. Str (task_id t) = taskId) (map g tasks)
          = map_option g (find (\<lambda>t. Str (task_id t) = taskId) tasks)"
    by (rule find_map_same) (simp add: gid)
  with m show "find (\<lambda>t. Str (task_id t) = taskId) (map g tasks) = Some (g m)" by simp
qed

lemma applyUpdatesLocally_twice:
  assumes dist: "distinct (map task_id tasks)" and du: "distinct (map upd_id ups)"
  shows "applyUpdatesLocally ups (applyUpdatesLocally ups tasks) = applyUpdatesLocally ups tasks"
proof -
  let ?g = "\<lambda>t. foldl (\<lambda>t u. taskStep u t) t ups"
  have gg: "?g (?g t) = ?g t" for t
  proof (cases "task_id t \<in> upd_id ` set ups")
    case False
    from taskSteps_other [OF this] show ?thesis by simp
  next
    case True
    then obtain i where i: "i < length ups" "task_id t = upd_id (ups ! i)"
      by (auto simp: in_set_conv_nth)
    from i have i': "task_id (?g t) = upd_id (ups ! i)" by simp
    from taskSteps_hit [OF du i(1) i'] taskSteps_hit [OF du i] show ?thesis by simp
  qed
  have d': "distinct (map task_id (map ?g tasks))" using dist by (simp add: comp_def)
  have "applyUpdatesLocally ups (applyUpdatesLocally ups tasks) = map ?g (map ?g tasks)"
    using dist d' by (simp only: applyUpdatesLocally_map)
  also have "\<dots> = map ?g tasks" by (simp add: gg)
  finally show ?thesis using dist by (simp only: applyUpdatesLocally_map)
qed

lemma splice_take_drop:
  "k \<le> length sibs \<Longrightarrow> P = take k sibs @ m # drop k sibs \<Longrightarrow>
   take k P @ drop (Suc k) P = sibs \<and> k < length P \<and> P ! k = m \<and>
   (\<forall>j < k. P ! j = sibs ! j)"
  by (auto simp: nth_append min_def)

lemma derived_ids:
  assumes d: "distinct (map ident L)" and k: "k < length L" and mk: "Str (ident (L ! k)) = moved"
  shows "derivedPrevId ident L moved = (if k = 0 then None else Some (Str (ident (L ! (k - 1)))))"
    and "derivedNextId ident L moved \<noteq> None \<longleftrightarrow> Suc k < length L"
proof -
  have "findIndex (\<lambda>x. Str (ident x) = moved) L = findIndex (\<lambda>x. ident x = ident (L ! k)) L"
    by (rule findIndex_cong) (use mk in auto)
  with findIndex_nth [OF d k] have f: "findIndex (\<lambda>x. Str (ident x) = moved) L = Some k"
    by simp
  then show "derivedPrevId ident L moved = (if k = 0 then None else Some (Str (ident (L ! (k - 1)))))"
    by (simp add: derivedPrevId_def)
  from f show "derivedNextId ident L moved \<noteq> None \<longleftrightarrow> Suc k < length L"
    by (simp add: derivedNextId_def)
qed

lemma derived_ids_absent:
  "(\<And>x. x \<in> set L \<Longrightarrow> Str (ident x) \<noteq> moved) \<Longrightarrow>
   derivedPrevId ident L moved = None \<and> derivedNextId ident L moved = None"
proof -
  assume "\<And>x. x \<in> set L \<Longrightarrow> Str (ident x) \<noteq> moved"
  then have "findIndex (\<lambda>x. Str (ident x) = moved) L = None"
    by (simp add: findIndex_None_iff)
  then show ?thesis by (simp add: derivedPrevId_def derivedNextId_def)
qed

lemma task_idempotent:
  fixes tasks :: "task list"
  assumes dist: "distinct (map task_id tasks)"
    and b: "buildUpdatesArray tasks taskId target prevEl nextEl = Some ups"
    and prev': "map_option (\<lambda>el. attr el ''taskId'') prevEl'
                  = derivedPrevId task_id
                      (sortByOrderIndex orderIndex
                         (filter (\<lambda>t. or_null (parentTaskId t) = target)
                            (applyUpdatesLocally ups tasks))) taskId"
    and next': "map_option (\<lambda>el. attr el ''taskId'') nextEl'
                  = derivedNextId task_id
                      (sortByOrderIndex orderIndex
                         (filter (\<lambda>t. or_null (parentTaskId t) = target)
                            (applyUpdatesLocally ups tasks))) taskId"
  shows "buildUpdatesArray (applyUpdatesLocally ups tasks) taskId target prevEl' nextEl' = Some ups"
    and "applyUpdatesLocally ups (applyUpdatesLocally ups tasks) = applyUpdatesLocally ups tasks"
proof -
  from b obtain m where m: "find (\<lambda>t. Str (task_id t) = taskId) tasks = Some m"
    by (cases "find (\<lambda>t. Str (task_id t) = taskId) tasks")
       (auto simp: buildUpdatesArray_def Let_def)
  define sibs where "sibs = sortByOrderIndex orderIndex
                 (filter (\<lambda>t. Str (task_id t) \<noteq> taskId)
                    (filter (\<lambda>t. or_null (parentTaskId t) = target) tasks))"
  define k where "k = insertIndex task_id sibs (map_option (\<lambda>el. attr el ''taskId'') prevEl) (nextEl \<noteq> None)"
  define P where "P = take k sibs @ m # drop k sibs"
  define g where "g = (\<lambda>t. foldl (\<lambda>t u. taskStep u t) t (renumber target P))"
  have k: "k \<le> length sibs" unfolding k_def by (rule insertIndex_le)
  from b task_plan_eq [OF m, of target prevEl nextEl]
  have ups: "ups = renumber target P"
    by (simp add: sibs_def k_def P_def splice_insert_def)
  have tasks': "applyUpdatesLocally ups tasks = map g tasks"
    using dist by (simp add: applyUpdatesLocally_map ups g_def)
  have gid: "task_id (g x) = task_id x" for x by (simp add: g_def)
  from find_Some_mem [OF m] have mid: "Str (task_id m) = taskId" by simp
  from splice_take_drop [OF k P_def]
  have sp: "take k P @ drop (Suc k) P = sibs" "k < length P" "P ! k = m" "\<forall>j < k. P ! j = sibs ! j"
    by blast+
  have fm: "find (\<lambda>t. Str (task_id t) = taskId) (map g tasks) = Some (g m)"
  proof -
    have "find (\<lambda>t. Str (task_id t) = taskId) (map g tasks)
          = map_option g (find (\<lambda>t. Str (task_id t) = taskId) tasks)"
      by (rule find_map_same) (simp add: gid)
    with m show ?thesis by simp
  qed
  have dPi: "distinct (map task_id P)"
  proof (cases "or_null target = target")
    case True
    from task_replay(1) [OF dist True m sibs_def k P_def g_def] show ?thesis .
  next
    case False
    then have "filter (\<lambda>t. or_null (parentTaskId t) = target) tasks = []"
      by (auto simp: filter_empty_conv)
    then have "sibs = []" by (simp add: sibs_def sortByOrderIndex_def)
    then show ?thesis by (simp add: P_def)
  qed
  then have du: "distinct (map upd_id ups)" by (simp add: ups ids_renumber)
  from applyUpdatesLocally_twice [OF dist du]
  show "applyUpdatesLocally ups (applyUpdatesLocally ups tasks) = applyUpdatesLocally ups tasks" .
  have "buildUpdatesArray (map g tasks) taskId target prevEl' nextEl' = Some (renumber target P)"
  proof (cases "or_null target = target")
    case True
    note R = task_replay [OF dist True m sibs_def k P_def g_def]
    have L: "sortByOrderIndex orderIndex (filter (\<lambda>t. or_null (parentTaskId t) = target) (map g tasks))
               = map g P" by (rule R(3))
    have dL: "distinct (map task_id (map g P))" using dPi by (simp add: comp_def gid)
    have kL: "k < length (map g P)" using sp(2) by simp
    have mL: "Str (task_id (map g P ! k)) = taskId" using sp(2,3) mid by (simp add: gid)
    from derived_ids [OF dL kL mL] prev' next' tasks' L
    have p: "map_option (\<lambda>el. attr el ''taskId'') prevEl'
               = (if k = 0 then None else Some (Str (task_id (map g P ! (k - 1)))))"
      and n: "map_option (\<lambda>el. attr el ''taskId'') nextEl' \<noteq> None \<longleftrightarrow> Suc k < length (map g P)"
      by simp_all
    have p': "map_option (\<lambda>el. attr el ''taskId'') prevEl'
               = (if k = 0 then None else Some (Str (task_id (P ! (k - 1)))))"
      using p sp(2) by (auto simp: gid)
    have n': "(nextEl' \<noteq> None) = (Suc k < length P)" using n by auto
    have "insertIndex task_id (map g sibs) (map_option (\<lambda>el. attr el ''taskId'') prevEl') (nextEl' \<noteq> None)
            = insertIndex task_id sibs (map_option (\<lambda>el. attr el ''taskId'') prevEl') (nextEl' \<noteq> None)"
      by (rule insertIndex_map_same) (simp add: gid)
    also have "\<dots> = insertIndex task_id (take k P @ drop (Suc k) P)
                      (if k = 0 then None else Some (Str (task_id (P ! (k - 1))))) (Suc k < length P)"
      by (simp only: p' n' sp(1))
    also have "\<dots> = k" using dPi sp(2) by (rule insertIndex_replay)
    finally have ii: "insertIndex task_id (map g sibs)
                        (map_option (\<lambda>el. attr el ''taskId'') prevEl') (nextEl' \<noteq> None) = k" .
    have "buildUpdatesArray (map g tasks) taskId target prevEl' nextEl'
            = Some (renumber target (splice_insert k (g m) (map g sibs)))"
      using task_plan_eq [OF fm, of target prevEl' nextEl'] R(4) ii by (simp only:)
    also have "splice_insert k (g m) (map g sibs) = map g P"
      by (simp add: splice_insert_def P_def take_map drop_map)
    also have "renumber target (map g P) = renumber target P"
      by (rule renumber_cong) (simp add: comp_def gid)
    finally show ?thesis .
  next
    case False
    have e: "filter (\<lambda>t. or_null (parentTaskId t) = target) xs = []" for xs :: "task list"
      using False by (auto simp: filter_empty_conv)
    then have s: "sibs = []" by (simp add: sibs_def sortByOrderIndex_def)
    then have P1: "P = [m]" by (simp add: P_def)
    from prev' next' tasks' have "prevEl' = None" "nextEl' = None"
      by (simp_all add: e sortByOrderIndex_def derivedPrevId_def derivedNextId_def)
    with task_plan_eq [OF fm, of target prevEl' nextEl']
    have "buildUpdatesArray (map g tasks) taskId target prevEl' nextEl' = Some (renumber target [g m])"
      by (simp add: e sortByOrderIndex_def insertIndex_def splice_insert_def)
    also have "renumber target [g m] = renumber target P"
      unfolding P1 by (rule renumber_cong) (simp add: gid)
    finally show ?thesis .
  qed
  with tasks' ups
  show "buildUpdatesArray (applyUpdatesLocally ups tasks) taskId target prevEl' nextEl' = Some ups"
    by (simp only:)
qed

lemma item_id_itemStep [simp]: "item_id (itemStep k u i) = item_id i"
  by (simp add: itemStep_def)

lemma taggedStep_simps [simp]:
  "fst (taggedStep u x) = fst x" "tagged_id (taggedStep u x) = tagged_id x"
  by (simp_all add: taggedStep_def tagged_id_def)

lemma taggedSteps_simps [simp]:
  "fst (foldl (\<lambda>x u. taggedStep u x) x ups) = fst x"
  "tagged_id (foldl (\<lambda>x u. taggedStep u x) x ups) = tagged_id x"
  by (induction ups arbitrary: x) simp_all

lemma itemsIn_flat:
  "itemsIn d target
     = filter (\<lambda>x. or_null (containerKey (fst x) (snd x)) = target) (allTagged d)"
  by (simp add: itemsIn_def allTagged_def filter_map comp_def containerKey_def)

lemma allTagged_collections:
  "allTagged d = concat (map (\<lambda>k. map (Pair k) (collection d k)) [Folder, Objective, Note, Bookmark, TaskList])"
  by (simp add: allTagged_def collection_def)

lemma collection_in_allTagged: "i \<in> set (collection d k) \<longleftrightarrow> (k, i) \<in> set (allTagged d)"
  by (cases k) (auto simp: allTagged_def collection_def)

lemma distinct_collection:
  "distinct (map tagged_id (allTagged d)) \<Longrightarrow> distinct (map item_id (collection d k))"
proof -
  assume a: "distinct (map tagged_id (allTagged d))"
  have e: "tagged_id \<circ> Pair k' = item_id" for k'
    by (simp add: fun_eq_iff tagged_id_def)
  from a show ?thesis
    by (cases k) (simp_all add: allTagged_def collection_def e)
qed

lemma collection_applyItemUpdate:
  assumes "distinct (map tagged_id (allTagged d))"
  shows "collection (applyItemUpdate u d) k = map (itemStep k u) (collection d k)"
proof -
  have upd: "update_first (\<lambda>x. item_id x = u_id u) f (collection d k')
               = map (\<lambda>x. if item_id x = u_id u then f x else x) (collection d k')" for f k'
    by (rule update_first_map) (rule distinct_collection [OF assms])
  have idm: "map (\<lambda>i. i) xs = xs" for xs :: "item list" by simp
  show ?thesis
  proof (cases "u_type u = k")
    case False
    then have "collection (applyItemUpdate u d) k = collection d k"
      by (cases "u_type u"; cases k) (simp_all add: applyItemUpdate_def collection_def)
    moreover from False have "map (itemStep k u) (collection d k) = collection d k"
      by (intro map_idI) (simp add: itemStep_def)
    ultimately show ?thesis by simp
  next
    case True
    show ?thesis
    proof (cases k)
      case Folder
      with True upd [of _ Folder] show ?thesis
        by (simp add: applyItemUpdate_def collection_def itemStep_def)
    next
      case Objective
      with True upd [of _ Objective] show ?thesis
        by (simp add: applyItemUpdate_def collection_def itemStep_def)
    next
      case Note
      with True upd [of _ Note] show ?thesis
        by (simp add: applyItemUpdate_def collection_def itemStep_def)
    next
      case Bookmark
      with True upd [of _ Bookmark] show ?thesis
        by (simp add: applyItemUpdate_def collection_def itemStep_def updateBookmarkOrder_def)
    next
      case TaskList
      with True upd [of _ TaskList] show ?thesis
        by (simp add: applyItemUpdate_def collection_def itemStep_def)
    qed
  qed
qed

lemma allTagged_applyItemUpdate:
  assumes "distinct (map tagged_id (allTagged d))"
  shows "allTagged (applyItemUpdate u d) = map (taggedStep u) (allTagged d)"
  unfolding allTagged_collections
  by (simp add: collection_applyItemUpdate [OF assms] taggedStep_def comp_def)

lemma allTagged_applyUpdatesLocally:
  "distinct (map tagged_id (allTagged d)) \<Longrightarrow>
   allTagged (applyUpdatesLocally_side ups d)
     = map (\<lambda>x. foldl (\<lambda>x u. taggedStep u x) x ups) (allTagged d)"
proof (induction ups arbitrary: d)
  case Nil
  show ?case by (simp add: applyUpdatesLocally_side_def)
next
  case (Cons u ups)
  have d': "distinct (map tagged_id (allTagged (applyItemUpdate u d)))"
    using Cons.prems by (simp add: allTagged_applyItemUpdate comp_def)
  have "applyUpdatesLocally_side (u # ups) d = applyUpdatesLocally_side ups (applyItemUpdate u d)"
    by (simp add: applyUpdatesLocally_side_def)
  then have "allTagged (applyUpdatesLocally_side (u # ups) d)
          = map (\<lambda>x. foldl (\<lambda>x u. taggedStep u x) x ups) (allTagged (applyItemUpdate u d))"
    using Cons.IH [OF d'] by simp
  also have "\<dots> = map (\<lambda>x. foldl (\<lambda>x u. taggedStep u x) x ups) (map (taggedStep u) (allTagged d))"
    using Cons.prems by (simp add: allTagged_applyItemUpdate)
  finally show ?case by (simp add: comp_def)
qed

lemma collection_applyUpdatesLocally:
  "distinct (map tagged_id (allTagged d)) \<Longrightarrow>
   collection (applyUpdatesLocally_side ups d) k
     = map (\<lambda>i. foldl (\<lambda>i u. itemStep k u i) i ups) (collection d k)"
proof (induction ups arbitrary: d)
  case Nil
  show ?case by (simp add: applyUpdatesLocally_side_def)
next
  case (Cons u ups)
  have d': "distinct (map tagged_id (allTagged (applyItemUpdate u d)))"
    using Cons.prems by (simp add: allTagged_applyItemUpdate comp_def)
  have "applyUpdatesLocally_side (u # ups) d = applyUpdatesLocally_side ups (applyItemUpdate u d)"
    by (simp add: applyUpdatesLocally_side_def)
  then have "collection (applyUpdatesLocally_side (u # ups) d) k
          = map (\<lambda>i. foldl (\<lambda>i u. itemStep k u i) i ups) (collection (applyItemUpdate u d) k)"
    using Cons.IH [OF d'] by simp
  also have "\<dots> = map (\<lambda>i. foldl (\<lambda>i u. itemStep k u i) i ups) (map (itemStep k u) (collection d k))"
    using Cons.prems by (simp add: collection_applyItemUpdate)
  finally show ?case by (simp add: comp_def)
qed

lemma taggedSteps_pair:
  "foldl (\<lambda>x u. taggedStep u x) (k, i) ups = (k, foldl (\<lambda>i u. itemStep k u i) i ups)"
  by (induction ups arbitrary: i) (simp_all add: taggedStep_def)

lemma taggedSteps_other:
  "tagged_id x \<notin> u_id ` set ups \<Longrightarrow> foldl (\<lambda>x u. taggedStep u x) x ups = x"
  by (induction ups arbitrary: x) (simp_all add: taggedStep_def itemStep_def tagged_id_def)

lemma taggedSteps_hit:
  "distinct (map u_id ups) \<Longrightarrow> i < length ups \<Longrightarrow> tagged_id x = u_id (ups ! i) \<Longrightarrow>
   fst x = u_type (ups ! i) \<Longrightarrow>
   foldl (\<lambda>x u. taggedStep u x) x ups
     = (fst x,
        if fst x = Folder
        then (snd x)\<lparr>item_orderIndex := Some (u_orderIndex (ups ! i)), parentId := u_parentId (ups ! i)\<rparr>
        else (snd x)\<lparr>item_orderIndex := Some (u_orderIndex (ups ! i)), folderId := u_folderId (ups ! i)\<rparr>)"
proof (induction ups arbitrary: x i)
  case Nil
  then show ?case by simp
next
  case (Cons u ups)
  show ?case
  proof (cases i)
    case 0
    with Cons.prems have hit: "tagged_id x = u_id u" "fst x = u_type u" by simp_all
    from Cons.prems have "u_id u \<notin> u_id ` set ups" by simp
    with hit have "tagged_id (taggedStep u x) \<notin> u_id ` set ups" by simp
    from taggedSteps_other [OF this] 0 hit show ?thesis
      by (simp add: taggedStep_def itemStep_def tagged_id_def)
  next
    case (Suc j)
    with Cons.prems have j: "j < length ups" and e: "tagged_id x = u_id (ups ! j)"
      and t: "fst x = u_type (ups ! j)" by simp_all
    from Cons.prems j have "u_id (ups ! j) \<noteq> u_id u"
      by (metis distinct.simps(2) list.simps(9) length_map nth_map nth_mem)
    with e have miss: "taggedStep u x = x"
      by (simp add: taggedStep_def itemStep_def tagged_id_def)
    from Cons.prems have "distinct (map u_id ups)" by simp
    from Cons.IH [OF this j e t] miss Suc show ?thesis by simp
  qed
qed

lemma u_ids_renumber_items: "map u_id (renumber_items target xs) = map tagged_id xs"
  by (rule nth_equalityI) (simp_all add: length_renumber_items nth_renumber_items)

lemma renumber_items_cong:
  "map (\<lambda>x. (fst x, tagged_id x)) xs = map (\<lambda>x. (fst x, tagged_id x)) ys \<Longrightarrow>
   renumber_items target xs = renumber_items target ys"
proof (rule nth_equalityI)
  assume e: "map (\<lambda>x. (fst x, tagged_id x)) xs = map (\<lambda>x. (fst x, tagged_id x)) ys"
  then have l: "length xs = length ys" by (rule map_eq_imp_length_eq)
  then show "length (renumber_items target xs) = length (renumber_items target ys)"
    by (simp add: length_renumber_items)
  fix i assume "i < length (renumber_items target xs)"
  then have i: "i < length xs" by (simp add: length_renumber_items)
  from e i l have "(fst (xs ! i), tagged_id (xs ! i)) = (fst (ys ! i), tagged_id (ys ! i))"
    by (metis (mono_tags, lifting) nth_map)
  with i l show "renumber_items target xs ! i = renumber_items target ys ! i"
    by (simp add: nth_renumber_items)
qed

lemma store_eqI:
  fixes d1 d2 :: store
  assumes "\<And>k. collection d1 k = collection d2 k"
  shows "d1 = d2"
proof -
  from assms [of Folder] assms [of Objective] assms [of Note] assms [of Bookmark] assms [of TaskList]
  show ?thesis by (cases d1; cases d2) (simp add: collection_def)
qed

lemma side_replay:
  fixes d :: store and target ident :: jsid
  assumes dist: "distinct (map tagged_id (allTagged d))"
    and norm: "or_null target = target"
    and m: "find (\<lambda>i. Str (item_id i) = ident) (collection d kd) = Some m"
    and sibs: "sibs = sortByOrderIndex tagged_orderIndex
                 (filter (\<lambda>x. Str (tagged_id x) \<noteq> ident) (itemsIn d target))"
    and n: "n \<le> length sibs"
    and P: "P = take n sibs @ (kd, m) # drop n sibs"
    and g: "g = (\<lambda>x. foldl (\<lambda>x u. taggedStep u x) x (renumber_items target P))"
  shows "distinct (map tagged_id P)"
    and "sortByOrderIndex tagged_orderIndex
           (filter (\<lambda>x. or_null (containerKey (fst x) (snd x)) = target) (map g (allTagged d)))
           = map g P"
    and "sortByOrderIndex tagged_orderIndex
           (filter (\<lambda>x. Str (tagged_id x) \<noteq> ident)
              (filter (\<lambda>x. or_null (containerKey (fst x) (snd x)) = target) (map g (allTagged d))))
           = map g sibs"
proof -
  let ?xs = "allTagged d"
  let ?ckey = "\<lambda>x :: kind \<times> item. or_null (containerKey (fst x) (snd x))"
  from find_Some_mem [OF m] have mt: "(kd, m) \<in> set ?xs" and mid: "Str (tagged_id (kd, m)) = ident"
    by (simp_all add: collection_in_allTagged tagged_id_def)
  have ss: "set sibs = {x \<in> set ?xs. ?ckey x = target \<and> Str (tagged_id x) \<noteq> ident}"
    unfolding sibs itemsIn_flat by (auto simp: sortByOrderIndex_def)
  from dist have dt: "distinct ?xs" and inj: "inj_on tagged_id (set ?xs)"
    by (simp_all add: distinct_map)
  have ds: "distinct sibs" unfolding sibs itemsIn_flat using dt by (simp add: sortByOrderIndex_def)
  from ss mid have mns: "(kd, m) \<notin> set sibs" by auto
  have "set (take n sibs) \<union> set (drop n sibs) = set sibs"
    by (metis append_take_drop_id set_append)
  then have setP: "set P = insert (kd, m) (set sibs)"
    unfolding P by auto
  have dP: "distinct P"
  proof -
    have "distinct (take n sibs @ drop n sibs)" using ds by simp
    then have "distinct (take n sibs)" "distinct (drop n sibs)"
      "set (take n sibs) \<inter> set (drop n sibs) = {}" by (simp_all only: distinct_append)
    moreover have "(kd, m) \<notin> set (take n sibs)" "(kd, m) \<notin> set (drop n sibs)"
      using mns by (auto dest: in_set_takeD in_set_dropD)
    ultimately show ?thesis unfolding P by auto
  qed
  from setP ss mt have sub: "set P \<subseteq> set ?xs" by auto
  from inj sub have "inj_on tagged_id (set P)" by (rule inj_on_subset)
  with dP show dPi: "distinct (map tagged_id P)" by (simp add: distinct_map)
  have du: "distinct (map u_id (renumber_items target P))"
    using dPi by (simp add: u_ids_renumber_items)
  have gP: "g (P ! i) =
      (fst (P ! i),
       if fst (P ! i) = Folder
       then (snd (P ! i))\<lparr>item_orderIndex := Some (int i * 1000), parentId := target\<rparr>
       else (snd (P ! i))\<lparr>item_orderIndex := Some (int i * 1000), folderId := target\<rparr>)"
    if i: "i < length P" for i
  proof -
    from i have i': "i < length (renumber_items target P)" by (simp add: length_renumber_items)
    from i have a: "tagged_id (P ! i) = u_id (renumber_items target P ! i)"
      and b: "fst (P ! i) = u_type (renumber_items target P ! i)"
      by (simp_all add: nth_renumber_items)
    from taggedSteps_hit [OF du i' a b] i show ?thesis by (simp add: g nth_renumber_items)
  qed
  have gother: "g x = x" if "x \<in> set ?xs" "x \<notin> set P" for x
  proof -
    have "tagged_id x \<notin> tagged_id ` set P"
    proof
      assume "tagged_id x \<in> tagged_id ` set P"
      then obtain y where y: "y \<in> set P" "tagged_id x = tagged_id y" by auto
      with sub that(1) inj have "x = y" by (auto dest: inj_onD)
      with y that(2) show False by simp
    qed
    then have "tagged_id x \<notin> u_id ` set (renumber_items target P)"
      by (metis u_ids_renumber_items list.set_map)
    from taggedSteps_other [OF this] show ?thesis by (simp add: g)
  qed
  have members: "x \<in> set P" if "x \<in> set ?xs" "?ckey x = target" for x
  proof (cases "Str (tagged_id x) = ident")
    case True
    with mid have "Str (tagged_id x) = Str (tagged_id (kd, m))" by (simp only:)
    then have "tagged_id x = tagged_id (kd, m)" by simp
    with inj that(1) mt have "x = (kd, m)" by (auto dest: inj_onD)
    with setP show ?thesis by simp
  next
    case False
    with that ss setP show ?thesis by simp
  qed
  have gid: "tagged_id (g x) = tagged_id x" for x by (simp add: g)
  show L: "sortByOrderIndex tagged_orderIndex
           (filter (\<lambda>x. or_null (containerKey (fst x) (snd x)) = target) (map g (allTagged d)))
           = map g P"
  proof (rule resort_after_apply [where ckey = ?ckey, OF dt sub dP])
    fix x assume "x \<in> set ?xs" "?ckey x = target"
    then show "x \<in> set P" by (rule members)
  next
    fix i assume "i < length P"
    from gP [OF this] norm
    show "?ckey (g (P ! i)) = target \<and> or_zero (tagged_orderIndex (g (P ! i))) = int i * 1000"
      by (simp add: containerKey_def tagged_orderIndex_def)
  next
    fix x assume "x \<in> set ?xs" "x \<notin> set P"
    then show "g x = x" by (rule gother)
  qed
  have "sortByOrderIndex tagged_orderIndex
           (filter (\<lambda>x. Str (tagged_id x) \<noteq> ident)
              (filter (\<lambda>x. or_null (containerKey (fst x) (snd x)) = target) (map g (allTagged d))))
        = filter (\<lambda>x. Str (tagged_id x) \<noteq> ident) (map g P)"
    using L sortByOrderIndex_filter
      [of "\<lambda>x. Str (tagged_id x) \<noteq> ident" tagged_orderIndex
          "filter (\<lambda>x. or_null (containerKey (fst x) (snd x)) = target) (map g (allTagged d))"]
    by (simp only:)
  also have "\<dots> = map g (filter (\<lambda>x. Str (tagged_id x) \<noteq> ident) P)"
    by (simp add: filter_map comp_def gid)
  also have "filter (\<lambda>x. Str (tagged_id x) \<noteq> ident) P = sibs"
    unfolding P by (rule splice_filter_out) (use ss mid in auto)
  finally show "sortByOrderIndex tagged_orderIndex
           (filter (\<lambda>x. Str (tagged_id x) \<noteq> ident)
              (filter (\<lambda>x. or_null (containerKey (fst x) (snd x)) = target) (map g (allTagged d))))
           = map g sibs" .
qed

lemma applyUpdatesLocally_side_twice:
  assumes dist: "distinct (map tagged_id (allTagged d))" and du: "distinct (map u_id ups)"
    and typed: "\<And>x u. x \<in> set (allTagged d) \<Longrightarrow> u \<in> set ups \<Longrightarrow> tagged_id x = u_id u \<Longrightarrow>
                  fst x = u_type u"
  shows "applyUpdatesLocally_side ups (applyUpdatesLocally_side ups d) = applyUpdatesLocally_side ups d"
proof (rule store_eqI)
  fix k
  let ?d' = "applyUpdatesLocally_side ups d"
  let ?G = "\<lambda>i. foldl (\<lambda>i u. itemStep k u i) i ups"
  let ?g = "\<lambda>x. foldl (\<lambda>x u. taggedStep u x) x ups"
  have d': "distinct (map tagged_id (allTagged ?d'))"
    using dist by (simp add: allTagged_applyUpdatesLocally comp_def)
  have gg: "?g (?g x) = ?g x" if x: "x \<in> set (allTagged d)" for x
  proof (cases "tagged_id x \<in> u_id ` set ups")
    case False
    from taggedSteps_other [OF this] show ?thesis by simp
  next
    case True
    then obtain i where i: "i < length ups" "tagged_id x = u_id (ups ! i)"
      by (auto simp: in_set_conv_nth)
    from typed [OF x _ i(2)] i(1) have t: "fst x = u_type (ups ! i)" by simp
    from i have i': "tagged_id (?g x) = u_id (ups ! i)" by simp
    from t have t': "fst (?g x) = u_type (ups ! i)" by simp
    from taggedSteps_hit [OF du i(1) i' t'] taggedSteps_hit [OF du i t] show ?thesis by simp
  qed
  have GG: "?G (?G i) = ?G i" if "i \<in> set (collection d k)" for i
  proof -
    from that have "(k, i) \<in> set (allTagged d)" by (simp add: collection_in_allTagged)
    from gg [OF this] show ?thesis by (simp add: taggedSteps_pair)
  qed
  have "collection (applyUpdatesLocally_side ups ?d') k = map ?G (collection ?d' k)"
    using d' by (rule collection_applyUpdatesLocally)
  also have "collection ?d' k = map ?G (collection d k)"
    using dist by (rule collection_applyUpdatesLocally)
  also have "map ?G (map ?G (collection d k)) = map ?G (collection d k)"
    by (simp add: GG)
  also have "\<dots> = collection ?d' k"
    using dist by (simp only: collection_applyUpdatesLocally)
  finally show "collection (applyUpdatesLocally_side ups ?d') k = collection ?d' k" .
qed

lemma side_idempotent:
  fixes d :: store
  assumes dist: "distinct (map tagged_id (allTagged d))"
    and b: "buildUpdatesArray_side d ty ident target prevEl nextEl = Some ups"
    and prev': "map_option getItemIdFromElement prevEl'
                  = derivedPrevId tagged_id
                      (sortByOrderIndex tagged_orderIndex
                         (itemsIn (applyUpdatesLocally_side ups d) target)) ident"
    and next': "map_option getItemIdFromElement nextEl'
                  = derivedNextId tagged_id
                      (sortByOrderIndex tagged_orderIndex
                         (itemsIn (applyUpdatesLocally_side ups d) target)) ident"
  shows "buildUpdatesArray_side (applyUpdatesLocally_side ups d) ty ident target prevEl' nextEl'
           = Some ups"
    and "applyUpdatesLocally_side ups (applyUpdatesLocally_side ups d)
           = applyUpdatesLocally_side ups d"
proof -
  let ?d' = "applyUpdatesLocally_side ups d"
  let ?ckey = "\<lambda>x :: kind \<times> item. or_null (containerKey (fst x) (snd x))"
  from b obtain kd where kd: "kind_of ty = Some kd"
    by (cases "kind_of ty") (auto simp: buildUpdatesArray_side_def Let_def)
  with b obtain m where m: "find (\<lambda>i. Str (item_id i) = ident) (collection d kd) = Some m"
    by (cases "find (\<lambda>i. Str (item_id i) = ident) (collection d kd)")
       (auto simp: buildUpdatesArray_side_def Let_def)
  define sibs where "sibs = sortByOrderIndex tagged_orderIndex
                 (filter (\<lambda>x. Str (tagged_id x) \<noteq> ident) (itemsIn d target))"
  define n where "n = insertIndex tagged_id sibs (map_option getItemIdFromElement prevEl) (nextEl \<noteq> None)"
  define P where "P = take n sibs @ (kd, m) # drop n sibs"
  define g where "g = (\<lambda>x. foldl (\<lambda>x u. taggedStep u x) x (renumber_items target P))"
  have n: "n \<le> length sibs" unfolding n_def by (rule insertIndex_le)
  from b side_plan_eq [OF kd m, of target prevEl nextEl]
  have ups: "ups = renumber_items target P"
    by (simp add: sibs_def n_def P_def splice_insert_def)
  have flat': "allTagged ?d' = map g (allTagged d)"
    using dist by (simp add: allTagged_applyUpdatesLocally ups g_def)
  have gid: "tagged_id (g x) = tagged_id x" and gfst: "fst (g x) = fst x" for x
    by (simp_all add: g_def)
  from find_Some_mem [OF m] have mt: "(kd, m) \<in> set (allTagged d)"
    and mid: "Str (tagged_id (kd, m)) = ident"
    by (simp_all add: collection_in_allTagged tagged_id_def)
  from splice_take_drop [OF n P_def]
  have sp: "take n P @ drop (Suc n) P = sibs" "n < length P" "P ! n = (kd, m)"
    "\<forall>j < n. P ! j = sibs ! j"
    by blast+
  have fm: "find (\<lambda>i. Str (item_id i) = ident) (collection ?d' kd) = Some (snd (g (kd, m)))"
  proof -
    let ?G = "\<lambda>i. foldl (\<lambda>i u. itemStep kd u i) i ups"
    have c: "collection ?d' kd = map ?G (collection d kd)"
      using dist by (rule collection_applyUpdatesLocally)
    have gi: "item_id (?G i) = item_id i" for i
      using taggedSteps_simps(2) [of "(kd, i)" ups] by (simp add: taggedSteps_pair tagged_id_def)
    have "find (\<lambda>i. Str (item_id i) = ident) (map ?G (collection d kd))
          = map_option ?G (find (\<lambda>i. Str (item_id i) = ident) (collection d kd))"
      by (rule find_map_same) (simp add: gi)
    with m c show ?thesis by (simp add: g_def ups taggedSteps_pair)
  qed
  have gm: "g (kd, m) = (kd, snd (g (kd, m)))"
    using gfst [of "(kd, m)"] by (metis fst_conv prod.collapse)
  have subs: "set sibs \<subseteq> set (allTagged d)"
    unfolding sibs_def itemsIn_flat by (auto simp: sortByOrderIndex_def)
  have "set (take n sibs) \<union> set (drop n sibs) = set sibs"
    by (metis append_take_drop_id set_append)
  with subs mt have sub: "set P \<subseteq> set (allTagged d)" unfolding P_def by auto
  have dPi: "distinct (map tagged_id P)"
  proof (cases "or_null target = target")
    case True
    from side_replay(1) [OF dist True m sibs_def n P_def g_def] show ?thesis .
  next
    case False
    then have "itemsIn d target = []"
      unfolding itemsIn_flat by (auto simp: filter_empty_conv)
    then have "sibs = []" by (simp add: sibs_def sortByOrderIndex_def)
    then show ?thesis by (simp add: P_def)
  qed
  then have du: "distinct (map u_id ups)" by (simp add: ups u_ids_renumber_items)
  from dist have inj: "inj_on tagged_id (set (allTagged d))" by (simp add: distinct_map)
  show "applyUpdatesLocally_side ups ?d' = ?d'"
  proof (rule applyUpdatesLocally_side_twice [OF dist du])
    fix x u assume x: "x \<in> set (allTagged d)" and u: "u \<in> set ups" and e: "tagged_id x = u_id u"
    from u obtain i where i: "i < length P" "u = renumber_items target P ! i"
      by (auto simp: ups in_set_conv_nth length_renumber_items)
    then have ui: "u_id u = tagged_id (P ! i)" "u_type u = fst (P ! i)"
      by (simp_all add: nth_renumber_items)
    from i(1) sub have "P ! i \<in> set (allTagged d)" by auto
    with inj x e ui(1) have "x = P ! i" by (auto dest: inj_onD)
    with ui(2) show "fst x = u_type u" by simp
  qed
  have "buildUpdatesArray_side ?d' ty ident target prevEl' nextEl' = Some (renumber_items target P)"
  proof (cases "or_null target = target")
    case True
    note R = side_replay [OF dist True m sibs_def n P_def g_def]
    have L: "sortByOrderIndex tagged_orderIndex (itemsIn ?d' target) = map g P"
      using R(2) by (simp add: itemsIn_flat flat')
    have S: "sortByOrderIndex tagged_orderIndex
               (filter (\<lambda>x. Str (tagged_id x) \<noteq> ident) (itemsIn ?d' target)) = map g sibs"
      using R(3) by (simp add: itemsIn_flat flat')
    have dL: "distinct (map tagged_id (map g P))" using dPi by (simp add: comp_def gid)
    have kL: "n < length (map g P)" using sp(2) by simp
    have mL: "Str (tagged_id (map g P ! n)) = ident" using sp(2,3) mid by (simp add: gid)
    from derived_ids [OF dL kL mL] prev' next' L
    have p: "map_option getItemIdFromElement prevEl'
               = (if n = 0 then None else Some (Str (tagged_id (map g P ! (n - 1)))))"
      and nx: "map_option getItemIdFromElement nextEl' \<noteq> None \<longleftrightarrow> Suc n < length (map g P)"
      by simp_all
    have p': "map_option getItemIdFromElement prevEl'
               = (if n = 0 then None else Some (Str (tagged_id (P ! (n - 1)))))"
      using p sp(2) by (auto simp: gid)
    have n': "(nextEl' \<noteq> None) = (Suc n < length P)" using nx by auto
    have "insertIndex tagged_id (map g sibs) (map_option getItemIdFromElement prevEl') (nextEl' \<noteq> None)
            = insertIndex tagged_id sibs (map_option getItemIdFromElement prevEl') (nextEl' \<noteq> None)"
      by (rule insertIndex_map_same) (simp add: gid)
    also have "\<dots> = insertIndex tagged_id (take n P @ drop (Suc n) P)
                      (if n = 0 then None else Some (Str (tagged_id (P ! (n - 1))))) (Suc n < length P)"
      by (simp only: p' n' sp(1))
    also have "\<dots> = n" using dPi sp(2) by (rule insertIndex_replay)
    finally have ii: "insertIndex tagged_id (map g sibs)
                        (map_option getItemIdFromElement prevEl') (nextEl' \<noteq> None) = n" .
    have "buildUpdatesArray_side ?d' ty ident target prevEl' nextEl'
            = Some (renumber_items target (splice_insert n (kd, snd (g (kd, m))) (map g sibs)))"
      using side_plan_eq [OF kd fm, of target prevEl' nextEl'] S ii by (simp only:)
    also have "splice_insert n (kd, snd (g (kd, m))) (map g sibs) = map g P"
      using gm by (simp add: splice_insert_def P_def take_map drop_map)
    also have "renumber_items target (map g P) = renumber_items target P"
      by (rule renumber_items_cong) (simp add: comp_def gid gfst)
    finally show ?thesis .
  next
    case False
    have e: "itemsIn dd target = []" for dd
      using False unfolding itemsIn_flat by (auto simp: filter_empty_conv)
    then have s: "sibs = []" by (simp add: sibs_def sortByOrderIndex_def)
    then have P1: "P = [(kd, m)]" by (simp add: P_def)
    from prev' next' have "prevEl' = None" "nextEl' = None"
      by (simp_all add: e sortByOrderIndex_def derivedPrevId_def derivedNextId_def)
    with side_plan_eq [OF kd fm, of target prevEl' nextEl']
    have "buildUpdatesArray_side ?d' ty ident target prevEl' nextEl'
            = Some (renumber_items target [(kd, snd (g (kd, m)))])"
      by (simp add: e sortByOrderIndex_def insertIndex_def splice_insert_def)
    also have "renumber_items target [(kd, snd (g (kd, m)))] = renumber_items target P"
    proof -
      have "item_id (snd (g (kd, m))) = item_id m"
        using gid [of "(kd, m)"] by (simp add: tagged_id_def)
      then show ?thesis
        unfolding P1 by (intro renumber_items_cong) (simp add: tagged_id_def)
    qed
    finally show ?thesis .
  qed
  with ups
  show "buildUpdatesArray_side ?d' ty ident target prevEl' nextEl' = Some ups"
    by (simp only:)
qed

section \<open>Idempotence of a plan\<close>

lemma allTagged_ids:
  "map tagged_id (allTagged d)
     = map item_id (folders d @ objectives d @ notes_d d @ bookmarks d @ taskLists d)"
  by (simp add: allTagged_def tagged_id_def comp_def)

text \<open>
  C7. The planners are idempotent with respect to final positions. In a collection whose
  ids are unique, take a plan the planner returns, apply it to the collection, and run the
  planner again for the same placement, the previous and next elements being the moved
  node's neighbours in its container of the updated collection: the planner returns the very
  same update list (every node gets the \<^verbatim>\<open>orderIndex\<close> and parent key it already has), and
  applying it again leaves the collection as it is.
\<close>

theorem planner_idempotent:
  "(distinct (map task_id tasks) \<and>
    buildUpdatesArray tasks taskId target prevEl nextEl = Some ups \<and>
    map_option (\<lambda>el. attr el ''taskId'') prevEl'
      = derivedPrevId task_id
          (sortByOrderIndex orderIndex
             (filter (\<lambda>t. or_null (parentTaskId t) = target) (applyUpdatesLocally ups tasks)))
          taskId \<and>
    map_option (\<lambda>el. attr el ''taskId'') nextEl'
      = derivedNextId task_id
          (sortByOrderIndex orderIndex
             (filter (\<lambda>t. or_null (parentTaskId t) = target) (applyUpdatesLocally ups tasks)))
          taskId
    \<longrightarrow> buildUpdatesArray (applyUpdatesLocally ups tasks) taskId target prevEl' nextEl' = Some ups \<and>
        applyUpdatesLocally ups (applyUpdatesLocally ups tasks) = applyUpdatesLocally ups tasks) \<and>
   (distinct (map item_id (folders d @ objectives d @ notes_d d @ bookmarks d @ taskLists d)) \<and>
    buildUpdatesArray_side d ty ident target prevEl nextEl = Some sups \<and>
    map_option getItemIdFromElement prevEl'
      = derivedPrevId tagged_id
          (sortByOrderIndex tagged_orderIndex (itemsIn (applyUpdatesLocally_side sups d) target))
          ident \<and>
    map_option getItemIdFromElement nextEl'
      = derivedNextId tagged_id
          (sortByOrderIndex tagged_orderIndex (itemsIn (applyUpdatesLocally_side sups d) target))
          ident
    \<longrightarrow> buildUpdatesArray_side (applyUpdatesLocally_side sups d) ty ident target prevEl' nextEl'
          = Some sups \<and>
        applyUpdatesLocally_side sups (applyUpdatesLocally_side sups d)
          = applyUpdatesLocally_side sups d)"
proof (intro conjI impI)
  assume a: "distinct (map task_id tasks) \<and>
    buildUpdatesArray tasks taskId target prevEl nextEl = Some ups \<and>
    map_option (\<lambda>el. attr el ''taskId'') prevEl'
      = derivedPrevId task_id
          (sortByOrderIndex orderIndex
             (filter (\<lambda>t. or_null (parentTaskId t) = target) (applyUpdatesLocally ups tasks)))
          taskId \<and>
    map_option (\<lambda>el. attr el ''taskId'') nextEl'
      = derivedNextId task_id
          (sortByOrderIndex orderIndex
             (filter (\<lambda>t. or_null (parentTaskId t) = target) (applyUpdatesLocally ups tasks)))
          taskId"
  then have 1: "distinct (map task_id tasks)"
    and 2: "buildUpdatesArray tasks taskId target prevEl nextEl = Some ups"
    and 3: "map_option (\<lambda>el. attr el ''taskId'') prevEl'
      = derivedPrevId task_id
          (sortByOrderIndex orderIndex
             (filter (\<lambda>t. or_null (parentTaskId t) = target) (applyUpdatesLocally ups tasks)))
          taskId"
    and 4: "map_option (\<lambda>el. attr el ''taskId'') nextEl'
      = derivedNextId task_id
          (sortByOrderIndex orderIndex
             (filter (\<lambda>t. or_null (parentTaskId t) = target) (applyUpdatesLocally ups tasks)))
          taskId"
    by blast+
  from task_idempotent(1) [OF 1 2 3 4]
  show "buildUpdatesArray (applyUpdatesLocally ups tasks) taskId target prevEl' nextEl' = Some ups" .
  from task_idempotent(2) [OF 1 2 3 4]
  show "applyUpdatesLocally ups (applyUpdatesLocally ups tasks) = applyUpdatesLocally ups tasks" .
next
  assume a: "distinct (map item_id (folders d @ objectives d @ notes_d d @ bookmarks d @ taskLists d)) \<and>
    buildUpdatesArray_side d ty ident target prevEl nextEl = Some sups \<and>
    map_option getItemIdFromElement prevEl'
      = derivedPrevId tagged_id
          (sortByOrderIndex tagged_orderIndex (itemsIn (applyUpdatesLocally_side sups d) target))
          ident \<and>
    map_option getItemIdFromElement nextEl'
      = derivedNextId tagged_id
          (sortByOrderIndex tagged_orderIndex (itemsIn (applyUpdatesLocally_side sups d) target))
          ident"
  then have 1: "distinct (map tagged_id (allTagged d))"
    by (simp only: allTagged_ids)
  from a have 2: "buildUpdatesArray_side d ty ident target prevEl nextEl = Some sups"
    and 3: "map_option getItemIdFromElement prevEl'
      = derivedPrevId tagged_id
          (sortByOrderIndex tagged_orderIndex (itemsIn (applyUpdatesLocally_side sups d) target))
          ident"
    and 4: "map_option getItemIdFromElement nextEl'
      = derivedNextId tagged_id
          (sortByOrderIndex tagged_orderIndex (itemsIn (applyUpdatesLocally_side sups d) target))
          ident"
    by blast+
  from side_idempotent(1) [OF 1 2 3 4]
  show "buildUpdatesArray_side (applyUpdatesLocally_side sups d) ty ident target prevEl' nextEl'
          = Some sups" .
  from side_idempotent(2) [OF 1 2 3 4]
  show "applyUpdatesLocally_side sups (applyUpdatesLocally_side sups d)
          = applyUpdatesLocally_side sups d" .
qed

theorem planner_idempotent_witness:
  "buildUpdatesArray (applyUpdatesLocally upsABC tasksABC) (Str ''C'') (Str ''P'')
     (Some (taskEl 1 ''A'')) (Some (taskEl 2 ''B'')) = Some upsABC \<and>
   applyUpdatesLocally upsABC (applyUpdatesLocally upsABC tasksABC)
     = applyUpdatesLocally upsABC tasksABC \<and>
   buildUpdatesArray_side (applyUpdatesLocally_side upsFL storeFL) (Str ''objective'') (Str ''L'')
     (Str ''F'') None None = Some upsFL \<and>
   applyUpdatesLocally_side upsFL (applyUpdatesLocally_side upsFL storeFL)
     = applyUpdatesLocally_side upsFL storeFL"
proof -
  let ?after = "[mkTask ''A'' (Str ''P'') 0, mkTask ''B'' (Str ''P'') 2000, mkTask ''C'' (Str ''P'') 1000]"
  let ?sorted = "[mkTask ''A'' (Str ''P'') 0, mkTask ''C'' (Str ''P'') 1000, mkTask ''B'' (Str ''P'') 2000]"
  have h1: "distinct (map task_id tasksABC)" by simp
  have h2: "buildUpdatesArray tasksABC (Str ''C'') (Str ''P'') (Some (taskEl 1 ''A'')) (Some (taskEl 2 ''B''))
           = Some upsABC"
    by (simp add: buildUpdatesArray_def sortByOrderIndex_def insertIndex_def attr_def
          splice_insert_def renumber_def Let_def)
  have w2: "applyUpdatesLocally upsABC tasksABC = ?after"
    by (simp add: applyUpdatesLocally_def applyUpdate_def)
  have w3: "sortByOrderIndex orderIndex (filter (\<lambda>t. or_null (parentTaskId t) = Str ''P'') ?after)
              = ?sorted"
    by (simp add: sortByOrderIndex_def)
  have w4: "derivedPrevId task_id ?sorted (Str ''C'') = Some (Str ''A'')"
    by (simp add: derivedPrevId_def)
  have w5: "derivedNextId task_id ?sorted (Str ''C'') = Some (Str ''B'')"
    by (simp add: derivedNextId_def)
  have "map_option (\<lambda>el. attr el ''taskId'') (Some (taskEl 1 ''A'')) = Some (Str ''A'')"
    by (simp add: attr_def)
  then have h3: "map_option (\<lambda>el. attr el ''taskId'') (Some (taskEl 1 ''A''))
      = derivedPrevId task_id
          (sortByOrderIndex orderIndex
             (filter (\<lambda>t. or_null (parentTaskId t) = Str ''P'') (applyUpdatesLocally upsABC tasksABC)))
          (Str ''C'')"
    by (simp only: w2 w3 w4)
  have "map_option (\<lambda>el. attr el ''taskId'') (Some (taskEl 2 ''B'')) = Some (Str ''B'')"
    by (simp add: attr_def)
  then have h4: "map_option (\<lambda>el. attr el ''taskId'') (Some (taskEl 2 ''B''))
      = derivedNextId task_id
          (sortByOrderIndex orderIndex
             (filter (\<lambda>t. or_null (parentTaskId t) = Str ''P'') (applyUpdatesLocally upsABC tasksABC)))
          (Str ''C'')"
    by (simp only: w2 w3 w5)
  note T = planner_idempotent [where tasks = tasksABC and taskId = "Str ''C''" and target = "Str ''P''"
      and prevEl = "Some (taskEl 1 ''A'')" and nextEl = "Some (taskEl 2 ''B'')" and ups = upsABC
      and prevEl' = "Some (taskEl 1 ''A'')" and nextEl' = "Some (taskEl 2 ''B'')", THEN conjunct1]
  from T [THEN mp, OF conjI [OF h1 conjI [OF h2 conjI [OF h3 h4]]]]
  have t: "buildUpdatesArray (applyUpdatesLocally upsABC tasksABC) (Str ''C'') (Str ''P'')
             (Some (taskEl 1 ''A'')) (Some (taskEl 2 ''B'')) = Some upsABC \<and>
           applyUpdatesLocally upsABC (applyUpdatesLocally upsABC tasksABC)
             = applyUpdatesLocally upsABC tasksABC" .
  let ?dafter = "\<lparr>folders = [mkItem ''F'' Null Undefined 0],
             objectives = [mkItem ''L'' Undefined (Str ''F'') 0],
             notes_d = [], bookmarks = [], taskLists = []\<rparr>"
  have g1: "distinct (map item_id (folders storeFL @ objectives storeFL @ notes_d storeFL @
                                   bookmarks storeFL @ taskLists storeFL))"
    by simp
  have g2: "buildUpdatesArray_side storeFL (Str ''objective'') (Str ''L'') (Str ''F'') None None
              = Some upsFL"
    by (simp add: buildUpdatesArray_side_def kind_of_def collection_def itemsIn_def
          sortByOrderIndex_def insertIndex_def splice_insert_def renumber_items_def tagged_id_def
          Let_def)
  have w7: "applyUpdatesLocally_side upsFL storeFL = ?dafter"
    by (simp add: applyUpdatesLocally_side_def applyItemUpdate_def)
  have w8: "sortByOrderIndex tagged_orderIndex (itemsIn ?dafter (Str ''F''))
              = [(Objective, mkItem ''L'' Undefined (Str ''F'') 0)]"
    by (simp add: itemsIn_def sortByOrderIndex_def)
  have w9: "derivedPrevId tagged_id [(Objective, mkItem ''L'' Undefined (Str ''F'') 0)] (Str ''L'') = None"
    by (simp add: derivedPrevId_def tagged_id_def)
  have w10: "derivedNextId tagged_id [(Objective, mkItem ''L'' Undefined (Str ''F'') 0)] (Str ''L'') = None"
    by (simp add: derivedNextId_def tagged_id_def)
  have "map_option getItemIdFromElement None = None" by simp
  then have g3: "map_option getItemIdFromElement None
      = derivedPrevId tagged_id
          (sortByOrderIndex tagged_orderIndex (itemsIn (applyUpdatesLocally_side upsFL storeFL) (Str ''F'')))
          (Str ''L'')"
    by (simp only: w7 w8 w9)
  have "map_option getItemIdFromElement None = None" by simp
  then have g4: "map_option getItemIdFromElement None
      = derivedNextId tagged_id
          (sortByOrderIndex tagged_orderIndex (itemsIn (applyUpdatesLocally_side upsFL storeFL) (Str ''F'')))
          (Str ''L'')"
    by (simp only: w7 w8 w10)
  note S = planner_idempotent [where d = storeFL and ty = "Str ''objective''" and ident = "Str ''L''"
      and target = "Str ''F''" and prevEl = None and nextEl = None and sups = upsFL
      and prevEl' = None and nextEl' = None, THEN conjunct2]
  from S [THEN mp, OF conjI [OF g1 conjI [OF g2 conjI [OF g3 g4]]]]
  have s: "buildUpdatesArray_side (applyUpdatesLocally_side upsFL storeFL) (Str ''objective'')
             (Str ''L'') (Str ''F'') None None = Some upsFL \<and>
           applyUpdatesLocally_side upsFL (applyUpdatesLocally_side upsFL storeFL)
             = applyUpdatesLocally_side upsFL storeFL" .
  from t s show ?thesis by (simp only: simp_thms)
qed

section \<open>A failed save in the task list\<close>

text \<open>
  When some write of a plan is refused and the task list is still known, the collection
  ends as the storage answers the reload of the error handler: the stored rows with every
  accepted write applied. When every write is refused and the collection was in step with
  the storage, that is the collection from before the move.
\<close>

lemma updateTaskPosition_failed:
  assumes "buildUpdatesArray (currentTasks st) taskId target prevEl nextEl = Some ups"
      and "list_ex rejects ups" and "taskListKnown st"
  shows "updateTaskPosition True rejects taskId target prevEl nextEl st =
           st\<lparr>currentTasks :=
                loadTasksForList (loadFails st)
                  (foldl (\<lambda>rows u. if rejects u then rows else updateTaskOrder u rows)
                     (storedTasks st) ups),
              storedTasks :=
                foldl (\<lambda>rows u. if rejects u then rows else updateTaskOrder u rows)
                  (storedTasks st) ups,
              persistCalls := persistCalls st @ ups,
              consoleErrors := consoleErrors st @ [''Task reorder failed:''],
              toasts := toasts st @ [''Move failed. Changes reverted.''],
              renderCount := renderCount st + 2\<rparr>"
  using assms
  by (simp add: updateTaskPosition_def optimisticUpdate_def persistUpdates_def refreshView_def Let_def)

lemma foldl_all_rejected:
  "\<forall>u \<in> set ups. rejects u \<Longrightarrow>
   foldl (\<lambda>rows u. if rejects u then rows else updateTaskOrder u rows) rows ups = rows"
  by (induction ups arbitrary: rows) simp_all

lemma updateTaskPosition_all_rejected:
  assumes "buildUpdatesArray (currentTasks st) taskId target prevEl nextEl = Some ups"
      and "\<forall>u \<in> set ups. rejects u" and "ups \<noteq> []" and "taskListKnown st"
      and "currentTasks st = loadTasksForList (loadFails st) (storedTasks st)"
  shows "currentTasks (updateTaskPosition True rejects taskId target prevEl nextEl st) = currentTasks st"
    and "storedTasks (updateTaskPosition True rejects taskId target prevEl nextEl st) = storedTasks st"
proof -
  from assms(2,3) have "list_ex rejects ups" by (cases ups) (auto simp: list_ex_iff)
  from updateTaskPosition_failed [OF assms(1) this assms(4)] assms(2,5)
  show "currentTasks (updateTaskPosition True rejects taskId target prevEl nextEl st) = currentTasks st"
    and "storedTasks (updateTaskPosition True rejects taskId target prevEl nextEl st) = storedTasks st"
    by (simp_all add: foldl_all_rejected)
qed

text \<open>
  C3, at a failing input. Tasks \<open>A\<close> (order 0) and \<open>B\<close> (order 1000) are at the root, in
  memory as they are stored; \<open>B\<close> is dropped above \<open>A\<close>, so the plan is \<open>B = 0\<close>,
  \<open>A = 1000\<close>; the storage accepts the write for \<open>B\<close> and refuses the one for \<open>A\<close>. The
  error toast is shown, but the collection does not return to its state from before the
  move: the render callback of the error handler loads the tasks from the storage, which has
  kept the write for \<open>B\<close>, and \<open>B\<close> ends with order 0 instead of 1000.
\<close>

theorem rollback_keeps_partial_writes:
  "buildUpdatesArray (currentTasks tstateAB) (Str ''B'') Null None (Some (taskEl 1 ''A''))
     = Some [\<lparr>upd_id = ''B'', upd_orderIndex = 0, upd_parentTaskId = Null\<rparr>,
             \<lparr>upd_id = ''A'', upd_orderIndex = 1000, upd_parentTaskId = Null\<rparr>] \<and>
   storedTasks (updateTaskPosition True rejectsA (Str ''B'') Null None (Some (taskEl 1 ''A'')) tstateAB)
     = [mkTask ''A'' Null 0, mkTask ''B'' Null 0] \<and>
   currentTasks (updateTaskPosition True rejectsA (Str ''B'') Null None (Some (taskEl 1 ''A'')) tstateAB)
     = [mkTask ''A'' Null 0, mkTask ''B'' Null 0] \<and>
   find (\<lambda>t. task_id t = ''B'')
     (currentTasks (updateTaskPosition True rejectsA (Str ''B'') Null None (Some (taskEl 1 ''A'')) tstateAB))
     = Some (mkTask ''B'' Null 0) \<and>
   find (\<lambda>t. task_id t = ''B'') (currentTasks tstateAB) = Some (mkTask ''B'' Null 1000) \<and>
   currentTasks (updateTaskPosition True rejectsA (Str ''B'') Null None (Some (taskEl 1 ''A'')) tstateAB)
     \<noteq> currentTasks tstateAB \<and>
   toasts (updateTaskPosition True rejectsA (Str ''B'') Null None (Some (taskEl 1 ''A'')) tstateAB)
     = [''Move failed. Changes reverted.'']"
proof -
  have b: "buildUpdatesArray (currentTasks tstateAB) (Str ''B'') Null None (Some (taskEl 1 ''A''))
     = Some [\<lparr>upd_id = ''B'', upd_orderIndex = 0, upd_parentTaskId = Null\<rparr>,
             \<lparr>upd_id = ''A'', upd_orderIndex = 1000, upd_parentTaskId = Null\<rparr>]"
    by (simp add: buildUpdatesArray_def sortByOrderIndex_def insertIndex_def splice_insert_def
          renumber_def Let_def)
  have r: "list_ex rejectsA [\<lparr>upd_id = ''B'', upd_orderIndex = 0, upd_parentTaskId = Null\<rparr>,
             \<lparr>upd_id = ''A'', upd_orderIndex = 1000, upd_parentTaskId = Null\<rparr>]"
    by (simp add: rejectsA_def)
  have k: "taskListKnown tstateAB" by simp
  note f = updateTaskPosition_failed [OF b r k]
  have s: "foldl (\<lambda>rows u. if rejectsA u then rows else updateTaskOrder u rows) (storedTasks tstateAB)
             [\<lparr>upd_id = ''B'', upd_orderIndex = 0, upd_parentTaskId = Null\<rparr>,
              \<lparr>upd_id = ''A'', upd_orderIndex = 1000, upd_parentTaskId = Null\<rparr>]
           = [mkTask ''A'' Null 0, mkTask ''B'' Null 0]"
    by (simp add: rejectsA_def updateTaskOrder_def)
  have l: "loadTasksForList False [mkTask ''A'' Null 0, mkTask ''B'' Null 0]
           = [mkTask ''A'' Null 0, mkTask ''B'' Null 0]"
    by (simp add: loadTasksForList_def sortByOrderIndex_def)
  from b f s l show ?thesis by simp
qed

end
